theory Spec2Isabelle
  imports Complex_Main "HOL-Library.AList" "HOL-Library.Sublist"
begin

section \<open>Python floats\<close>

text \<open>
  A finite Python float is an IEEE-754 binary64 number; it is modelled by the rational
  number it denotes. \<open>fl64\<close> rounds a rational to the nearest binary64 value, ties to
  the even significand, with gradual underflow (the exponent of the last place never
  drops below \<open>-1074\<close>) and an unbounded exponent upwards: a result of magnitude
  \<open>2 ^ 1024\<close> or more is what the hardware reports as overflow. The sign of a zero is
  not kept.
\<close>

definition pow2 :: "int \<Rightarrow> rat" where
  "pow2 e = (if 0 \<le> e then 2 ^ nat e else 1 / 2 ^ nat (- e))"

function bit_length :: "int \<Rightarrow> int" where
  "bit_length n = (if n \<le> 0 then 0 else 1 + bit_length (n div 2))"
  by pat_completeness auto
termination
  by (relation "measure nat") auto

declare bit_length.simps [simp del]

text \<open>\<open>ilog2 x\<close> is the integer \<open>k\<close> with \<open>2 ^ k \<le> x < 2 ^ (k + 1)\<close>, for \<open>0 < x\<close>.\<close>

definition ilog2 :: "rat \<Rightarrow> int" where
  "ilog2 x =
     (if 1 \<le> x then bit_length \<lfloor>x\<rfloor> - 1 else - bit_length (\<lceil>1 / x\<rceil> - 1))"

definition round_half_even :: "rat \<Rightarrow> int" where
  "round_half_even x =
     (let f = \<lfloor>x\<rfloor>; d = x - of_int f
      in if d < 1 / 2 then f
         else if 1 / 2 < d then f + 1
         else if even f then f else f + 1)"

definition fl64 :: "rat \<Rightarrow> rat" where
  "fl64 x =
     (if x = 0 then 0
      else let e = max (ilog2 \<bar>x\<bar> - 52) (- 1074)
           in of_int (round_half_even (x / pow2 e)) * pow2 e)"

definition overflows :: "rat \<Rightarrow> bool" where
  "overflows r = (pow2 1024 \<le> \<bar>r\<bar>)"

text \<open>
  A float value: finite, or one of the two infinities. No operation of the program
  produces a NaN from finite operands (the only division raises on a zero divisor).
\<close>

datatype pyfloat = Fin rat | PInf | NInf

datatype py_error = ZeroDivisionError | OverflowError

fun float_gt :: "pyfloat \<Rightarrow> rat \<Rightarrow> bool" where
  "float_gt (Fin x) t = (t < x)"
| "float_gt PInf t = True"
| "float_gt NInf t = False"

text \<open>
  The operations of \<^verbatim>\<open>round(weight / ((height / 100) ** 2), 2)\<close>, on Python numbers
  (an \<^verbatim>\<open>int\<close>, or a finite \<^verbatim>\<open>float\<close>) given by their exact value.

  \<^verbatim>\<open>height / 100\<close> is correctly rounded, for an \<^verbatim>\<open>int\<close> as for a \<^verbatim>\<open>float\<close>; a quotient of
  two \<^verbatim>\<open>int\<close>s that is too large for a float raises \<^verbatim>\<open>OverflowError\<close>.
\<close>

definition div_100 :: "rat \<Rightarrow> py_error + rat" where
  "div_100 h = (let r = fl64 (h / 100) in if overflows r then Inl OverflowError else Inr r)"

text \<open>
  \<^verbatim>\<open>x ** 2\<close> on a float calls the C library's \<^verbatim>\<open>pow\<close>; CPython raises
  \<^verbatim>\<open>OverflowError\<close> when the result overflows and returns \<^verbatim>\<open>0.0\<close> when it underflows.
  \<open>pow_2\<close> is the correctly rounded square. That is what glibc's \<^verbatim>\<open>pow\<close> returns for
  \<^verbatim>\<open>h / 100\<close> at every integer \<open>h\<close> from 30 to 200, the heights that the form delivers.
  It is not what it returns for every float: at \<^verbatim>\<open>1.2704\<close> glibc 2.39 returns the float
  just below. So \<open>pow_2\<close>, and with it \<open>raw_bmi\<close> and \<open>bmi_of\<close>, stand for line 124
  at the heights of the form, and the statements that depend on the value of a BMI are
  made for those (\<open>delivered\<close>, below).
\<close>

definition pow_2 :: "rat \<Rightarrow> py_error + rat" where
  "pow_2 x = (let r = fl64 (x * x) in if overflows r then Inl OverflowError else Inr r)"

text \<open>
  \<^verbatim>\<open>weight / d\<close> with a float \<^verbatim>\<open>d\<close>: the left operand is converted to a float first
  (\<^verbatim>\<open>OverflowError\<close> for an \<^verbatim>\<open>int\<close> too large to convert), a zero divisor raises
  \<^verbatim>\<open>ZeroDivisionError\<close>, and a quotient out of range is an infinity.
\<close>

definition float_div :: "rat \<Rightarrow> rat \<Rightarrow> py_error + pyfloat" where
  "float_div w d =
     (let a = fl64 w
      in if overflows a then Inl OverflowError
         else if d = 0 then Inl ZeroDivisionError
         else let q = fl64 (a / d)
              in Inr (if overflows q then (if 0 < q then PInf else NInf) else Fin q))"

text \<open>
  \<^verbatim>\<open>round(x, 2)\<close>: the decimal with two places nearest to the exact value of \<^verbatim>\<open>x\<close> (ties
  to the even last digit), converted back to the nearest float. An infinity is returned
  as it is.
\<close>

fun py_round2 :: "pyfloat \<Rightarrow> pyfloat" where
  "py_round2 (Fin x) = Fin (fl64 (of_int (round_half_even (x * 100)) / 100))"
| "py_round2 PInf = PInf"
| "py_round2 NInf = NInf"

text \<open>Line 124: \<^verbatim>\<open>bmi = round(weight / ((height / 100) ** 2), 2)\<close>.\<close>

definition raw_bmi :: "rat \<Rightarrow> rat \<Rightarrow> py_error + pyfloat" where
  "raw_bmi weight height =
     (case div_100 height of
        Inl e \<Rightarrow> Inl e
      | Inr m \<Rightarrow>
          (case pow_2 m of
             Inl e \<Rightarrow> Inl e
           | Inr sq \<Rightarrow> float_div weight sq))"

definition bmi_of :: "rat \<Rightarrow> rat \<Rightarrow> py_error + pyfloat" where
  "bmi_of weight height =
     (case raw_bmi weight height of Inl e \<Rightarrow> Inl e | Inr q \<Rightarrow> Inr (py_round2 q))"

text \<open>
  \<^verbatim>\<open>probability - new_prob\<close> and \<^verbatim>\<open>changes[best_factor] * 100\<close>, on the probabilities
  that the classifier returns (finite floats between 0 and 1: nothing overflows).
\<close>

definition float_sub :: "rat \<Rightarrow> rat \<Rightarrow> rat" where
  "float_sub a b = fl64 (a - b)"

definition float_mul :: "rat \<Rightarrow> rat \<Rightarrow> rat" where
  "float_mul a b = fl64 (a * b)"

section \<open>The form and the encoded row\<close>

text \<open>
  The three select boxes offer fixed options. The number inputs return integers within
  the bounds of lines 110 to 114: \<open>delivered\<close> says so. The record itself holds height
  and weight as Python numbers (by value), since the expression of line 124 computes on
  an \<^verbatim>\<open>int\<close> as on a \<^verbatim>\<open>float\<close>; what the program receives is a delivered form. The age
  is computed from the date of birth before the form is read.
\<close>

datatype sex = Male | Female

datatype activity = Sedentary | Moderate | Active

datatype yes_no = Yes | No

record form =
  age :: int
  height :: rat
  weight :: rat
  glucose :: int
  insulin :: int
  blood_pressure :: int
  sex :: sex
  activity :: activity
  family_history :: yes_no

text \<open>
  Lines 110 to 114: an integer height from 30 to 200, an integer weight from 5 to 150,
  glucose and insulin not below 0, a blood pressure from 50 to 200.
\<close>

definition delivered :: "form \<Rightarrow> bool" where
  "delivered f =
     (height f = of_int \<lfloor>height f\<rfloor> \<and> 30 \<le> height f \<and> height f \<le> 200
      \<and> weight f = of_int \<lfloor>weight f\<rfloor> \<and> 5 \<le> weight f \<and> weight f \<le> 150
      \<and> 0 \<le> glucose f \<and> 0 \<le> insulin f
      \<and> 50 \<le> blood_pressure f \<and> blood_pressure f \<le> 200)"

text \<open>
  A one-row \<^verbatim>\<open>DataFrame\<close>: the columns in their order, each with the number in its cell.
\<close>

type_synonym dataframe = "(string \<times> pyfloat) list"

definition num :: "int \<Rightarrow> pyfloat" where
  "num n = Fin (of_int n)"

definition columns :: "string list" where
  "columns = [''Age'', ''Sex'', ''BMI'', ''Glucose'', ''Insulin'',
              ''BloodPressure'', ''PhysicalActivityLevel'', ''FamilyHistory'']"

definition sex_encoded :: "sex \<Rightarrow> int" where
  "sex_encoded s = (if s = Male then 1 else 0)"

fun activity_map :: "activity \<Rightarrow> int" where
  "activity_map Sedentary = 0"
| "activity_map Moderate = 1"
| "activity_map Active = 2"

definition family_history_encoded :: "yes_no \<Rightarrow> int" where
  "family_history_encoded h = (if h = Yes then 1 else 0)"

definition input_data :: "form \<Rightarrow> pyfloat \<Rightarrow> dataframe" where
  "input_data f bmi =
     zip columns
       [num (age f), num (sex_encoded (sex f)), bmi, num (glucose f), num (insulin f),
        num (blood_pressure f), num (activity_map (activity f)),
        num (family_history_encoded (family_history f))]"

section \<open>The classifier and the state of a run\<close>

text \<open>
  The classifier is loaded from a file and is opaque: \<open>predict\<close> gives the label of the
  row, \<open>predict_proba\<close> the probability of class 1.
\<close>

record classifier =
  predict :: "dataframe \<Rightarrow> int"
  predict_proba :: "dataframe \<Rightarrow> rat"

text \<open>
  The state of a run: the \<^verbatim>\<open>DataFrame\<close> objects by address (a variable holds an
  address, and an address is only ever obtained from an allocation), the argument of
  every query of the classifier, oldest first, and the dictionary \<^verbatim>\<open>changes\<close> in
  insertion order.
\<close>

record world =
  frames :: "dataframe list"
  calls :: "dataframe list"
  changes :: "(string \<times> rat) list"

definition df_copy :: "nat \<Rightarrow> world \<Rightarrow> nat \<times> world" where
  "df_copy r w = (length (frames w), w\<lparr>frames := frames w @ [frames w ! r]\<rparr>)"

definition set_column :: "nat \<Rightarrow> string \<Rightarrow> pyfloat \<Rightarrow> world \<Rightarrow> world" where
  "set_column r c v w = w\<lparr>frames := (frames w)[r := AList.update c v (frames w ! r)]\<rparr>"

definition call_predict :: "classifier \<Rightarrow> nat \<Rightarrow> world \<Rightarrow> int \<times> world" where
  "call_predict m r w = (predict m (frames w ! r), w\<lparr>calls := calls w @ [frames w ! r]\<rparr>)"

definition call_predict_proba :: "classifier \<Rightarrow> nat \<Rightarrow> world \<Rightarrow> rat \<times> world" where
  "call_predict_proba m r w =
     (predict_proba m (frames w ! r), w\<lparr>calls := calls w @ [frames w ! r]\<rparr>)"

section \<open>Health suggestions\<close>

datatype message = Warning string | Info string

text \<open>Lines 152 to 161.\<close>

definition health_suggestions :: "pyfloat \<Rightarrow> int \<Rightarrow> int \<Rightarrow> int \<Rightarrow> int \<Rightarrow> message list" where
  "health_suggestions bmi glu ins bp fh_encoded =
     (if float_gt bmi 22
      then [Warning ''BMI is high for age. Consider weight management.''] else []) @
     (if 110 < glu
      then [Warning ''Glucose is elevated. Consider dietary monitoring.''] else []) @
     (if 25 < ins
      then [Warning ''Insulin is elevated. Consult a pediatrician.''] else []) @
     (if 120 < bp
      then [Warning ''High blood pressure. Needs monitoring.''] else []) @
     (if fh_encoded \<noteq> 0
      then [Info ''Family history increases risk. Take preventive measures.''] else [])"

section \<open>Single metric what-if analysis\<close>

text \<open>
  One of the three blocks of lines 173 to 189: set the column to the healthy value,
  query the classifier, store the drop under the column's name, reset the column.
\<close>

definition probe ::
  "classifier \<Rightarrow> rat \<Rightarrow> nat \<Rightarrow> string \<Rightarrow> pyfloat \<Rightarrow> pyfloat \<Rightarrow> world \<Rightarrow> world" where
  "probe m probability r c healthy original w =
     (let w1 = set_column r c healthy w;
          (new_prob, w2) = call_predict_proba m r w1;
          w3 = w2\<lparr>changes := AList.update c (float_sub probability new_prob) (changes w2)\<rparr>
      in set_column r c original w3)"

text \<open>
  \<^verbatim>\<open>max(changes, key=changes.get)\<close>: the keys are visited in insertion order, and a key
  replaces the current best only when its value is strictly greater.
\<close>

fun max_from :: "string \<times> rat \<Rightarrow> (string \<times> rat) list \<Rightarrow> string \<times> rat" where
  "max_from best [] = best"
| "max_from best (kv # rest) = max_from (if snd best < snd kv then kv else best) rest"

definition py_max_key :: "(string \<times> rat) list \<Rightarrow> string option" where
  "py_max_key d = (case d of [] \<Rightarrow> None | kv # rest \<Rightarrow> Some (fst (max_from kv rest)))"

text \<open>
  Lines 191 to 195: the factor and the drop of the message, when \<^verbatim>\<open>changes\<close> is not
  empty. (\<^verbatim>\<open>max\<close> of an empty dictionary and a missing key would raise; neither is
  reached.)
\<close>

definition best_drop :: "(string \<times> rat) list \<Rightarrow> (string \<times> rat) option" where
  "best_drop d =
     (if d \<noteq> []
      then (case py_max_key d of
              None \<Rightarrow> None
            | Some best_factor \<Rightarrow>
                (case map_of d best_factor of
                   None \<Rightarrow> None
                 | Some v \<Rightarrow> Some (best_factor, float_mul v 100)))
      else None)"

text \<open>Lines 168 to 195.\<close>

definition what_if_analysis ::
  "classifier \<Rightarrow> form \<Rightarrow> pyfloat \<Rightarrow> rat \<Rightarrow> nat \<Rightarrow> world \<Rightarrow> (string \<times> rat) option \<times> world" where
  "what_if_analysis m f bmi probability input_ref w =
     (let (what_if_ref, w1) = df_copy input_ref w;
          w2 = w1\<lparr>changes := []\<rparr>;
          w3 = (if float_gt bmi 22
                then probe m probability what_if_ref ''BMI'' (num 20) bmi w2 else w2);
          w4 = (if 110 < glucose f
                then probe m probability what_if_ref ''Glucose'' (num 100) (num (glucose f)) w3
                else w3);
          w5 = (if 25 < insulin f
                then probe m probability what_if_ref ''Insulin'' (num 20) (num (insulin f)) w4
                else w4)
      in (best_drop (changes w5), w5))"

section \<open>The prediction section\<close>

text \<open>What the page shows after a submit.\<close>

record report =
  shown_age :: int
  shown_bmi :: pyfloat
  at_risk :: bool
  gauge :: rat
  suggestions :: "message list"
  what_if :: "(string \<times> rat) option"

text \<open>Lines 126 to 195, once the BMI is there.\<close>

definition assess :: "classifier \<Rightarrow> form \<Rightarrow> pyfloat \<Rightarrow> report \<times> world" where
  "assess m f bmi =
     (let w0 = \<lparr>frames = [input_data f bmi], calls = [], changes = []\<rparr>;
          input_ref = 0;
          (prediction, w1) = call_predict m input_ref w0;
          (probability, w2) = call_predict_proba m input_ref w1;
          (best, w3) = (if prediction = 1
                        then what_if_analysis m f bmi probability input_ref w2
                        else (None, w2))
      in (\<lparr>shown_age = age f, shown_bmi = bmi, at_risk = (prediction = 1),
           gauge = probability,
           suggestions = health_suggestions bmi (glucose f) (insulin f) (blood_pressure f)
                           (family_history_encoded (family_history f)),
           what_if = best\<rparr>, w3))"

text \<open>
  Lines 123 to 195. An exception of line 124 ends the run: nothing of the result section
  has been shown and the classifier has not been queried.
\<close>

definition on_submit :: "classifier \<Rightarrow> form \<Rightarrow> (py_error + report) \<times> world" where
  "on_submit m f =
     (case bmi_of (weight f) (height f) of
        Inl e \<Rightarrow> (Inl e, \<lparr>frames = [], calls = [], changes = []\<rparr>)
      | Inr bmi \<Rightarrow> (let (r, w) = assess m f bmi in (Inr r, w)))"

section \<open>Vocabulary of the specification\<close>

text \<open>
  The factors that the analysis may probe, in the order of the source, with their
  thresholds and their reference healthy values, and the eligible ones among them.
\<close>

definition exceeds :: "form \<Rightarrow> pyfloat \<Rightarrow> string \<Rightarrow> bool" where
  "exceeds f bmi c =
     (if c = ''BMI'' then float_gt bmi 22
      else if c = ''Glucose'' then 110 < glucose f
      else if c = ''Insulin'' then 25 < insulin f
      else False)"

definition eligible :: "form \<Rightarrow> pyfloat \<Rightarrow> string list" where
  "eligible f bmi = filter (exceeds f bmi) [''BMI'', ''Glucose'', ''Insulin'']"

definition reference_value :: "string \<Rightarrow> pyfloat" where
  "reference_value c = (if c = ''Glucose'' then num 100 else num 20)"

text \<open>The table of suggestions, in its order.\<close>

definition bmi_warning :: message where
  "bmi_warning = Warning ''BMI is high for age. Consider weight management.''"

definition glucose_warning :: message where
  "glucose_warning = Warning ''Glucose is elevated. Consider dietary monitoring.''"

definition insulin_warning :: message where
  "insulin_warning = Warning ''Insulin is elevated. Consult a pediatrician.''"

definition pressure_warning :: message where
  "pressure_warning = Warning ''High blood pressure. Needs monitoring.''"

definition family_info :: message where
  "family_info = Info ''Family history increases risk. Take preventive measures.''"

definition suggestion_table :: "message list" where
  "suggestion_table =
     [bmi_warning, glucose_warning, insulin_warning, pressure_warning, family_info]"

text \<open>
  The BMI as the specification writes it, in exact arithmetic, and rounding to the
  nearest integer with a tie going up (\<open>round_half_even\<close> above sends a tie to the even
  neighbour).
\<close>

definition exact_bmi :: "form \<Rightarrow> rat" where
  "exact_bmi f = weight f / (height f / 100)\<^sup>2"

definition round_half_up :: "rat \<Rightarrow> int" where
  "round_half_up x = \<lfloor>x + 1 / 2\<rfloor>"

text \<open>The row of one probe, and the drop it gives.\<close>

definition probe_row :: "dataframe \<Rightarrow> string \<Rightarrow> dataframe" where
  "probe_row df c = AList.update c (reference_value c) df"

definition delta :: "classifier \<Rightarrow> dataframe \<Rightarrow> string \<Rightarrow> rat" where
  "delta m df c = float_sub (predict_proba m df) (predict_proba m (probe_row df c))"

section \<open>Sample inputs\<close>

text \<open>The patient of the end-to-end scenario.\<close>

definition scenario_form :: form where
  "scenario_form =
     \<lparr>age = 10, height = 120, weight = 35, glucose = 130, insulin = 30,
      blood_pressure = 95, sex = Male, activity = Sedentary, family_history = Yes\<rparr>"

text \<open>A patient whose only high value is the BMI.\<close>

definition high_bmi_form :: form where
  "high_bmi_form = scenario_form\<lparr>glucose := 90, insulin := 20\<rparr>"

text \<open>A patient with a BMI of 22 exactly, and no other high value.\<close>

definition threshold_form :: form where
  "threshold_form = scenario_form\<lparr>height := 100, weight := 22, glucose := 90, insulin := 20\<rparr>"

text \<open>
  The patient of the form whose quotient is the nearest above 22 (22.00597), and a
  patient whose exact quotient, 9.375, is halfway between two hundredths.
\<close>

definition closest_form :: form where
  "closest_form = scenario_form\<lparr>height := 143, weight := 45\<rparr>"

definition tie_form :: form where
  "tie_form = scenario_form\<lparr>height := 80, weight := 6\<rparr>"

text \<open>
  Two classifiers that always answer "at risk". The risk of the first one grows by a
  quarter with a BMI above 22 and by a quarter with a glucose above 110; the risk of the
  second one is lower when the BMI is above 22.
\<close>

definition cell_above :: "dataframe \<Rightarrow> string \<Rightarrow> rat \<Rightarrow> bool" where
  "cell_above df c t = (case map_of df c of Some v \<Rightarrow> float_gt v t | None \<Rightarrow> False)"

definition step_model :: classifier where
  "step_model =
     \<lparr>predict = (\<lambda>df. 1),
      predict_proba = (\<lambda>df. 1 / 2 + (if cell_above df ''BMI'' 22 then 1 / 4 else 0)
                                + (if cell_above df ''Glucose'' 110 then 1 / 4 else 0))\<rparr>"

definition contrary_model :: classifier where
  "contrary_model =
     \<lparr>predict = (\<lambda>df. 1),
      predict_proba = (\<lambda>df. if cell_above df ''BMI'' 22 then 1 / 2 else 3 / 4)\<rparr>"

text \<open>A classifier that differs from \<open>step_model\<close> on the empty data frame only.\<close>

definition other_model :: classifier where
  "other_model =
     \<lparr>predict = (\<lambda>df. if df = [] then 0 else predict step_model df),
      predict_proba = (\<lambda>df. if df = [] then 0 else predict_proba step_model df)\<rparr>"

section \<open>Evaluating floats on numerals\<close>

lemma bit_length_numeral:
  "bit_length 0 = 0"
  "bit_length 1 = 1"
  "bit_length (numeral k) = 1 + bit_length (numeral k div 2)"
  by (simp_all add: bit_length.simps [of 0] bit_length.simps [of 1]
      bit_length.simps [of "numeral k"])

lemma floor_rat_numeral:
  "\<lfloor>numeral a / numeral b :: rat\<rfloor> = numeral a div numeral b"
  "\<lfloor>- (numeral a / numeral b) :: rat\<rfloor> = - numeral a div numeral b"
  "\<lceil>numeral a / numeral b :: rat\<rceil> = - (- numeral a div numeral b)"
  "\<lceil>- (numeral a / numeral b) :: rat\<rceil> = - (numeral a div numeral b)"
  using floor_divide_of_int_eq [of "numeral a" "numeral b", where ?'a = rat]
    floor_divide_of_int_eq [of "- numeral a" "numeral b", where ?'a = rat]
    ceiling_divide_eq_div [of "numeral a" "numeral b", where ?'a = rat]
    ceiling_divide_eq_div [of "- numeral a" "numeral b", where ?'a = rat]
  by simp_all

lemmas float_eval =
  fl64_def ilog2_def round_half_even_def pow2_def Let_def overflows_def
  bit_length_numeral floor_rat_numeral

lemma fl64_borderline_weight:
  "fl64 (3168576 / 100000) = 8918748558059435 / 281474976710656"
  by (simp add: float_eval)

section \<open>The run, step by step\<close>

lemma max_from_split:
  "\<exists>ys zs. best # xs = ys @ max_from best xs # zs
     \<and> (\<forall>kv \<in> set ys. snd kv < snd (max_from best xs))
     \<and> (\<forall>kv \<in> set zs. snd kv \<le> snd (max_from best xs))"
proof (induction xs arbitrary: best)
  case Nil
  have "[best] = [] @ best # []" "\<forall>p \<in> set []. snd p < snd best"
    "\<forall>p \<in> set []. snd p \<le> snd best" by simp_all
  then show ?case unfolding max_from.simps by blast
next
  case (Cons kv rest)
  define b where "b = (if snd best < snd kv then kv else best)"
  define r where "r = max_from b rest"
  from Cons.IH [of b] obtain ys zs where
    eq: "b # rest = ys @ r # zs"
    and lt: "\<forall>p \<in> set ys. snd p < snd r"
    and le: "\<forall>p \<in> set zs. snd p \<le> snd r"
    unfolding r_def by blast
  have res: "max_from best (kv # rest) = r" by (simp add: r_def b_def)
  have ge: "snd b \<le> snd r"
  proof (cases ys)
    case Nil
    with eq show ?thesis by simp
  next
    case (Cons y ys')
    with eq have "y = b" by simp
    with Cons lt show ?thesis by auto
  qed
  show ?case
  proof (cases "snd best < snd kv")
    case True
    then have "b = kv" by (simp add: b_def)
    then have "best # kv # rest = (best # ys) @ r # zs" using eq by simp
    moreover have "\<forall>p \<in> set (best # ys). snd p < snd r"
      using True ge lt \<open>b = kv\<close> by auto
    ultimately show ?thesis unfolding res using le by blast
  next
    case False
    then have bb: "b = best" by (simp add: b_def)
    show ?thesis
    proof (cases ys)
      case Nil
      with eq bb have "r = best" "zs = rest" by simp_all
      then have "best # kv # rest = [] @ r # (kv # rest)" by simp
      moreover have "\<forall>p \<in> set (kv # rest). snd p \<le> snd r"
        using False le \<open>r = best\<close> \<open>zs = rest\<close> by auto
      moreover have "\<forall>p \<in> set []. snd p < snd r" by simp
      ultimately show ?thesis unfolding res by blast
    next
      case (Cons y ys')
      with eq bb have y: "y = best" and rest: "rest = ys' @ r # zs" by simp_all
      have "best # kv # rest = (best # kv # ys') @ r # zs" using rest by simp
      moreover have "\<forall>p \<in> set (best # kv # ys'). snd p < snd r"
        using False lt Cons y by auto
      ultimately show ?thesis unfolding res using le by blast
    qed
  qed
qed

lemma input_data_cells:
  "map_of (input_data f bmi) ''BMI'' = Some bmi"
  "map_of (input_data f bmi) ''Glucose'' = Some (num (glucose f))"
  "map_of (input_data f bmi) ''Insulin'' = Some (num (insulin f))"
  by (simp_all add: input_data_def columns_def)

lemma probe_world:
  assumes "frames w = [d0, df]" and "map_of df c = Some original"
  shows "probe m p (Suc 0) c healthy original w =
           w\<lparr>calls := calls w @ [AList.update c healthy df],
             changes := AList.update c (float_sub p (predict_proba m (AList.update c healthy df)))
                          (changes w)\<rparr>"
  using assms
  by (simp add: probe_def set_column_def call_predict_proba_def Let_def AList.update_triv)

lemma what_if_analysis_eq:
  assumes "frames w = [input_data f bmi]"
  shows "what_if_analysis m f bmi p 0 w =
     (best_drop (map (\<lambda>c. (c, float_sub p (predict_proba m (probe_row (input_data f bmi) c))))
                  (eligible f bmi)),
      w\<lparr>frames := [input_data f bmi, input_data f bmi],
        calls := calls w @ map (probe_row (input_data f bmi)) (eligible f bmi),
        changes := map (\<lambda>c. (c, float_sub p (predict_proba m (probe_row (input_data f bmi) c))))
                     (eligible f bmi)\<rparr>)"
  using assms
  by (simp add: what_if_analysis_def df_copy_def Let_def probe_world input_data_cells
      eligible_def exceeds_def probe_row_def reference_value_def)

lemma assess_eq:
  "assess m f bmi =
     (\<lparr>shown_age = age f, shown_bmi = bmi,
       at_risk = (predict m (input_data f bmi) = 1),
       gauge = predict_proba m (input_data f bmi),
       suggestions = health_suggestions bmi (glucose f) (insulin f) (blood_pressure f)
                       (family_history_encoded (family_history f)),
       what_if = (if predict m (input_data f bmi) = 1
                  then best_drop (map (\<lambda>c. (c, delta m (input_data f bmi) c)) (eligible f bmi))
                  else None)\<rparr>,
      \<lparr>frames = (if predict m (input_data f bmi) = 1
                 then [input_data f bmi, input_data f bmi] else [input_data f bmi]),
       calls = [input_data f bmi, input_data f bmi] @
               (if predict m (input_data f bmi) = 1
                then map (probe_row (input_data f bmi)) (eligible f bmi) else []),
       changes = (if predict m (input_data f bmi) = 1
                  then map (\<lambda>c. (c, delta m (input_data f bmi) c)) (eligible f bmi)
                  else [])\<rparr>)"
  by (simp add: assess_def call_predict_def call_predict_proba_def Let_def
      what_if_analysis_eq delta_def)

lemma map_of_graph:
  "map_of (map (\<lambda>k. (k, g k)) ks) k = (if k \<in> set ks then Some (g k) else None)"
  by (induction ks) auto

lemma best_drop_graph:
  assumes "ks \<noteq> []"
  shows "\<exists>c ys zs. best_drop (map (\<lambda>k. (k, g k)) ks) = Some (c, float_mul (g c) 100)
           \<and> ks = ys @ c # zs
           \<and> (\<forall>k \<in> set ys. g k < g c) \<and> (\<forall>k \<in> set zs. g k \<le> g c)"
proof -
  from assms obtain k0 rest where ks: "ks = k0 # rest" by (cases ks) auto
  define ps where "ps = map (\<lambda>k. (k, g k)) rest"
  define r where "r = max_from (k0, g k0) ps"
  from max_from_split [of "(k0, g k0)" ps] obtain us vs where
    eq: "(k0, g k0) # ps = us @ r # vs"
    and lt: "\<forall>p \<in> set us. snd p < snd r"
    and le: "\<forall>p \<in> set vs. snd p \<le> snd r"
    unfolding r_def by blast
  have all: "map (\<lambda>k. (k, g k)) ks = us @ r # vs"
    using eq by (simp add: ks ps_def)
  then have "map fst (map (\<lambda>k. (k, g k)) ks) = map fst (us @ r # vs)"
    by simp
  then have keys: "ks = map fst us @ fst r # map fst vs"
    by (simp add: comp_def)
  have graph: "\<forall>p \<in> set (us @ r # vs). snd p = g (fst p)"
    using all [symmetric] by auto
  have r_in: "fst r \<in> set ks" using keys by (metis in_set_conv_decomp)
  have "py_max_key (map (\<lambda>k. (k, g k)) ks) = Some (fst r)"
    by (simp add: py_max_key_def ks r_def ps_def)
  moreover have "map_of (map (\<lambda>k. (k, g k)) ks) (fst r) = Some (g (fst r))"
    using r_in by (simp add: map_of_graph)
  ultimately have "best_drop (map (\<lambda>k. (k, g k)) ks) = Some (fst r, float_mul (g (fst r)) 100)"
    using assms by (simp add: best_drop_def)
  moreover have "\<forall>k \<in> set (map fst us). g k < g (fst r)"
    using lt graph by auto
  moreover have "\<forall>k \<in> set (map fst vs). g k \<le> g (fst r)"
    using le graph by auto
  ultimately show ?thesis using keys by blast
qed

lemma on_submit_Inr:
  "bmi_of (weight f) (height f) = Inr bmi \<Longrightarrow>
     on_submit m f = (Inr (fst (assess m f bmi)), snd (assess m f bmi))"
  by (simp add: on_submit_def split: prod.splits)

section \<open>Sample runs\<close>

lemmas bmi_eval = bmi_of_def raw_bmi_def div_100_def pow_2_def float_div_def float_eval

lemma bmi_of_scenario:
  "bmi_of (weight scenario_form) (height scenario_form)
     = Inr (Fin (6842656683836047 / 281474976710656))"
  by (simp add: scenario_form_def bmi_eval)

lemma eligible_scenario:
  "eligible scenario_form (Fin (6842656683836047 / 281474976710656))
     = [''BMI'', ''Glucose'', ''Insulin'']"
  by (simp add: eligible_def exceeds_def scenario_form_def)

lemma delta_step_scenario:
  "delta step_model (input_data scenario_form (Fin (6842656683836047 / 281474976710656))) ''BMI'' = 1 / 4"
  "delta step_model (input_data scenario_form (Fin (6842656683836047 / 281474976710656))) ''Glucose'' = 1 / 4"
  "delta step_model (input_data scenario_form (Fin (6842656683836047 / 281474976710656))) ''Insulin'' = 0"
  by (simp_all add: delta_def step_model_def cell_above_def probe_row_def reference_value_def
      input_data_def columns_def scenario_form_def num_def float_sub_def float_eval)

section \<open>The what-if analysis picks the first maximal drop\<close>

text \<open>
  \<^bold>\<open>C1.\<close> In a run that succeeds and classifies the patient as at risk, with at least
  one eligible factor, the message names a factor \<open>c\<close> of the eligible list such that
  every eligible factor before it (in the order BMI, Glucose, Insulin) has a strictly
  smaller drop and every eligible factor after it has a drop that is not greater: the
  maximal drop, and among equal maximal drops the earliest factor. The drop is the base
  probability minus the probability of the probe, and the message shows it times 100.
\<close>

theorem what_if_selects_first_maximum:
  assumes "bmi_of (weight f) (height f) = Inr bmi"
    and "on_submit m f = (Inr rep, w)"
    and "at_risk rep"
    and "eligible f bmi \<noteq> []"
  shows "\<exists>c ys zs.
           what_if rep = Some (c, float_mul (delta m (input_data f bmi) c) 100)
         \<and> eligible f bmi = ys @ c # zs
         \<and> (\<forall>k \<in> set ys. delta m (input_data f bmi) k < delta m (input_data f bmi) c)
         \<and> (\<forall>k \<in> set zs. delta m (input_data f bmi) k \<le> delta m (input_data f bmi) c)
         \<and> subseq (eligible f bmi) [''BMI'', ''Glucose'', ''Insulin'']"
proof -
  from assms(1,2) have rep: "rep = fst (assess m f bmi)"
    by (simp add: on_submit_Inr)
  with assms(3) have "what_if rep
      = best_drop (map (\<lambda>c. (c, delta m (input_data f bmi) c)) (eligible f bmi))"
    by (simp add: assess_eq split: if_splits)
  moreover have "subseq (eligible f bmi) [''BMI'', ''Glucose'', ''Insulin'']"
    unfolding eligible_def by (rule subseq_filter_left)
  ultimately show ?thesis
    using best_drop_graph [OF assms(4), of "delta m (input_data f bmi)"] by auto
qed

theorem what_if_selects_first_maximum_witness:
  "bmi_of (weight scenario_form) (height scenario_form)
     = Inr (Fin (6842656683836047 / 281474976710656))
   \<and> at_risk (fst (assess step_model scenario_form (Fin (6842656683836047 / 281474976710656))))
   \<and> eligible scenario_form (Fin (6842656683836047 / 281474976710656)) \<noteq> []
   \<and> what_if (fst (assess step_model scenario_form (Fin (6842656683836047 / 281474976710656))))
       = Some (''BMI'', 25)"
proof -
  let ?bmi = "Fin (6842656683836047 / 281474976710656)"
  let ?rep = "fst (assess step_model scenario_form ?bmi)"
  let ?w = "snd (assess step_model scenario_form ?bmi)"
  let ?d = "delta step_model (input_data scenario_form ?bmi)"
  have h1: "bmi_of (weight scenario_form) (height scenario_form) = Inr ?bmi"
    by (rule bmi_of_scenario)
  have h2: "on_submit step_model scenario_form = (Inr ?rep, ?w)"
    using h1 by (rule on_submit_Inr)
  have h3: "at_risk ?rep"
    by (simp add: assess_eq step_model_def)
  have h4: "eligible scenario_form ?bmi \<noteq> []"
    by (simp add: eligible_scenario)
  from what_if_selects_first_maximum [OF h1 h2 h3 h4] obtain c ys zs where
    res: "what_if ?rep = Some (c, float_mul (?d c) 100)"
    and split: "eligible scenario_form ?bmi = ys @ c # zs"
    and before: "\<forall>k \<in> set ys. ?d k < ?d c"
    by blast
  from split have "(ys = [] \<and> c = ''BMI'') \<or> (ys = [''BMI''] \<and> c = ''Glucose'')
      \<or> (ys = [''BMI'', ''Glucose''] \<and> c = ''Insulin'')"
    unfolding eligible_scenario by (auto simp add: Cons_eq_append_conv)
  with before have c: "c = ''BMI''"
    by (auto simp add: delta_step_scenario)
  have "float_mul (1 / 4) 100 = 25"
    by (simp add: float_mul_def float_eval)
  with res c have "what_if ?rep = Some (''BMI'', 25)"
    by (simp add: delta_step_scenario)
  with h1 h3 h4 show ?thesis by blast
qed

section \<open>Rows, eligible factors and rounding\<close>

lemma input_data_keys: "map fst (input_data f bmi) = columns"
  by (simp add: input_data_def columns_def)

lemma eligible_subset: "set (eligible f bmi) \<subseteq> {''BMI'', ''Glucose'', ''Insulin''}"
  by (auto simp add: eligible_def)

lemma eligible_iff:
  "''BMI'' \<in> set (eligible f bmi) \<longleftrightarrow> float_gt bmi 22"
  "''Glucose'' \<in> set (eligible f bmi) \<longleftrightarrow> 110 < glucose f"
  "''Insulin'' \<in> set (eligible f bmi) \<longleftrightarrow> 25 < insulin f"
  by (simp_all add: eligible_def exceeds_def)

lemma probe_row_keys:
  assumes "c \<in> set (eligible f bmi)"
  shows "map fst (probe_row (input_data f bmi) c) = columns"
proof -
  from assms eligible_subset have "c \<in> set columns"
    by (auto simp add: columns_def)
  then show ?thesis
    by (simp add: probe_row_def AList.update_keys input_data_keys)
qed

lemma probe_row_cells:
  "map_of (probe_row df c) c = Some (reference_value c)"
  "k \<noteq> c \<Longrightarrow> map_of (probe_row df c) k = map_of df k"
  by (simp_all add: probe_row_def AList.update_conv')

lemma reference_values:
  "reference_value ''BMI'' = num 20"
  "reference_value ''Glucose'' = num 100"
  "reference_value ''Insulin'' = num 20"
  by (simp_all add: reference_value_def)

lemma round_half_even_nonpos: "x \<le> 0 \<Longrightarrow> round_half_even x \<le> 0"
proof -
  assume x: "x \<le> 0"
  then have f: "\<lfloor>x\<rfloor> \<le> 0" by (simp add: floor_le_zero)
  show ?thesis
  proof (cases "\<lfloor>x\<rfloor> = 0")
    case True
    then have "0 \<le> x" by (metis of_int_0 of_int_floor_le)
    with x have "x = 0" by simp
    then show ?thesis by (simp add: round_half_even_def)
  next
    case False
    with f have "\<lfloor>x\<rfloor> + 1 \<le> 0" by linarith
    then show ?thesis using f by (simp add: round_half_even_def Let_def)
  qed
qed

lemma pow2_pos: "0 < pow2 e"
  by (simp add: pow2_def)

lemma fl64_nonpos: "x \<le> 0 \<Longrightarrow> fl64 x \<le> 0"
proof -
  assume x: "x \<le> 0"
  have "round_half_even (x / pow2 e) \<le> 0" for e
    using x pow2_pos [of e] by (intro round_half_even_nonpos) (simp add: divide_le_0_iff)
  then have "of_int (round_half_even (x / pow2 e)) * pow2 e \<le> 0" for e
    using pow2_pos [of e] by (simp add: mult_le_0_iff)
  then show ?thesis by (simp add: fl64_def Let_def)
qed

section \<open>More sample runs\<close>

lemma bmi_of_high_bmi:
  "bmi_of (weight high_bmi_form) (height high_bmi_form)
     = Inr (Fin (6842656683836047 / 281474976710656))"
  using bmi_of_scenario by (simp add: high_bmi_form_def)

lemma bmi_of_22: "bmi_of 22 100 = Inr (Fin 22)"
  by (simp add: bmi_eval)

lemma bmi_of_threshold:
  "bmi_of (weight threshold_form) (height threshold_form) = Inr (Fin 22)"
  using bmi_of_22 by (simp add: threshold_form_def)

lemma eligible_threshold: "eligible threshold_form (Fin 22) = []"
  by (simp add: eligible_def exceeds_def threshold_form_def scenario_form_def)

lemma delivered_samples:
  "delivered scenario_form" "delivered high_bmi_form" "delivered threshold_form"
  "delivered closest_form" "delivered tie_form"
  by (simp_all add: delivered_def scenario_form_def high_bmi_form_def threshold_form_def
      closest_form_def tie_form_def)

lemma eligible_high_bmi:
  "eligible high_bmi_form (Fin (6842656683836047 / 281474976710656)) = [''BMI'']"
  by (simp add: eligible_def exceeds_def high_bmi_form_def scenario_form_def)

lemma delta_contrary_high_bmi:
  "delta contrary_model (input_data high_bmi_form (Fin (6842656683836047 / 281474976710656))) ''BMI''
     = - (1 / 4)"
  by (simp add: delta_def contrary_model_def cell_above_def probe_row_def reference_value_def
      input_data_def columns_def num_def float_sub_def float_eval)

lemma input_data_scenario:
  "input_data scenario_form bmi
     = zip columns [num 10, num 1, bmi, num 130, num 30, num 95, num 0, num 1]"
  by (simp add: input_data_def scenario_form_def sex_encoded_def family_history_encoded_def)

section \<open>Each probe changes one factor of the original row\<close>

text \<open>
  \<^bold>\<open>C2.\<close> In a run that succeeds, the classifier is queried on the encoded row (for the
  label and for the probability) and then, when the patient is at risk, once for each
  eligible factor in order. The row of the probe of a factor is the original row with
  that one column set to its reference value (BMI 20, Glucose 100, Insulin 20): every
  other column, and the order of the columns, is that of the original row, whatever was
  probed before. At the end both data frames, the original and the working copy, hold
  the original row.
\<close>

theorem probes_change_one_factor:
  assumes "bmi_of (weight f) (height f) = Inr bmi"
    and "on_submit m f = (Inr rep, w)"
  shows "calls w = [input_data f bmi, input_data f bmi] @
                   (if at_risk rep then map (probe_row (input_data f bmi)) (eligible f bmi) else [])
       \<and> (\<forall>c \<in> set (eligible f bmi).
            map_of (probe_row (input_data f bmi) c) c = Some (reference_value c)
          \<and> (\<forall>k. k \<noteq> c \<longrightarrow> map_of (probe_row (input_data f bmi) c) k = map_of (input_data f bmi) k)
          \<and> map fst (probe_row (input_data f bmi) c) = columns)
       \<and> reference_value ''BMI'' = num 20
       \<and> reference_value ''Glucose'' = num 100
       \<and> reference_value ''Insulin'' = num 20
       \<and> frames w = (if at_risk rep then [input_data f bmi, input_data f bmi]
                      else [input_data f bmi])"
proof -
  from assms have rep: "rep = fst (assess m f bmi)" and w: "w = snd (assess m f bmi)"
    by (simp_all add: on_submit_Inr)
  have "calls w = [input_data f bmi, input_data f bmi] @
                   (if at_risk rep then map (probe_row (input_data f bmi)) (eligible f bmi) else [])"
    by (simp add: rep w assess_eq)
  moreover have "frames w = (if at_risk rep then [input_data f bmi, input_data f bmi]
                      else [input_data f bmi])"
    by (simp add: rep w assess_eq)
  ultimately show ?thesis
    using probe_row_keys [of _ f bmi] by (simp add: probe_row_cells reference_values)
qed

theorem probes_change_one_factor_witness:
  "bmi_of (weight scenario_form) (height scenario_form)
     = Inr (Fin (6842656683836047 / 281474976710656))
   \<and> on_submit step_model scenario_form
       = (Inr (fst (assess step_model scenario_form (Fin (6842656683836047 / 281474976710656)))),
          snd (assess step_model scenario_form (Fin (6842656683836047 / 281474976710656))))
   \<and> calls (snd (assess step_model scenario_form (Fin (6842656683836047 / 281474976710656))))
       = [zip columns [num 10, num 1, Fin (6842656683836047 / 281474976710656),
                       num 130, num 30, num 95, num 0, num 1],
          zip columns [num 10, num 1, Fin (6842656683836047 / 281474976710656),
                       num 130, num 30, num 95, num 0, num 1],
          zip columns [num 10, num 1, num 20, num 130, num 30, num 95, num 0, num 1],
          zip columns [num 10, num 1, Fin (6842656683836047 / 281474976710656),
                       num 100, num 30, num 95, num 0, num 1],
          zip columns [num 10, num 1, Fin (6842656683836047 / 281474976710656),
                       num 130, num 20, num 95, num 0, num 1]]"
proof -
  let ?bmi = "Fin (6842656683836047 / 281474976710656)"
  let ?rep = "fst (assess step_model scenario_form ?bmi)"
  let ?w = "snd (assess step_model scenario_form ?bmi)"
  have h1: "bmi_of (weight scenario_form) (height scenario_form) = Inr ?bmi"
    by (rule bmi_of_scenario)
  have h2: "on_submit step_model scenario_form = (Inr ?rep, ?w)"
    using h1 by (rule on_submit_Inr)
  have risk: "at_risk ?rep"
    by (simp add: assess_eq step_model_def)
  from probes_change_one_factor [OF h1 h2] risk
  have "calls ?w = [input_data scenario_form ?bmi, input_data scenario_form ?bmi] @
                   map (probe_row (input_data scenario_form ?bmi)) (eligible scenario_form ?bmi)"
    by simp
  then have "calls ?w
       = [zip columns [num 10, num 1, ?bmi, num 130, num 30, num 95, num 0, num 1],
          zip columns [num 10, num 1, ?bmi, num 130, num 30, num 95, num 0, num 1],
          zip columns [num 10, num 1, num 20, num 130, num 30, num 95, num 0, num 1],
          zip columns [num 10, num 1, ?bmi, num 100, num 30, num 95, num 0, num 1],
          zip columns [num 10, num 1, ?bmi, num 130, num 20, num 95, num 0, num 1]]"
    by (simp add: eligible_scenario input_data_scenario probe_row_def reference_value_def
        columns_def)
  with h1 h2 show ?thesis by blast
qed

section \<open>The what-if analysis runs for a patient at risk, on the eligible factors\<close>

text \<open>
  \<^bold>\<open>C3.\<close> In a run that succeeds, the what-if analysis runs exactly when the label is 1:
  otherwise the classifier is queried on the encoded row only and nothing is stored in
  \<^verbatim>\<open>changes\<close>. When it runs, the probed factors are the eligible ones, which are exactly
  those of BMI, Glucose and Insulin above their threshold (BMI above 22, glucose above
  110, insulin above 25). A message is shown exactly when the patient is at risk and
  some factor is eligible; with no eligible factor there is none, at risk or not.
\<close>

theorem what_if_runs_on_eligible_factors:
  assumes "bmi_of (weight f) (height f) = Inr bmi"
    and "on_submit m f = (Inr rep, w)"
  shows "(at_risk rep \<longleftrightarrow> predict m (input_data f bmi) = 1)
       \<and> map fst (changes w) = (if at_risk rep then eligible f bmi else [])
       \<and> calls w = [input_data f bmi, input_data f bmi] @
                   (if at_risk rep then map (probe_row (input_data f bmi)) (eligible f bmi) else [])
       \<and> (''BMI'' \<in> set (eligible f bmi) \<longleftrightarrow> float_gt bmi 22)
       \<and> (''Glucose'' \<in> set (eligible f bmi) \<longleftrightarrow> 110 < glucose f)
       \<and> (''Insulin'' \<in> set (eligible f bmi) \<longleftrightarrow> 25 < insulin f)
       \<and> set (eligible f bmi) \<subseteq> {''BMI'', ''Glucose'', ''Insulin''}
       \<and> (what_if rep \<noteq> None \<longleftrightarrow> at_risk rep \<and> eligible f bmi \<noteq> [])"
proof -
  from assms have rep: "rep = fst (assess m f bmi)" and w: "w = snd (assess m f bmi)"
    by (simp_all add: on_submit_Inr)
  have risk: "at_risk rep \<longleftrightarrow> predict m (input_data f bmi) = 1"
    by (simp add: rep assess_eq)
  have keys: "map fst (changes w) = (if at_risk rep then eligible f bmi else [])"
    by (simp add: rep w assess_eq comp_def)
  have calls: "calls w = [input_data f bmi, input_data f bmi] @
                   (if at_risk rep then map (probe_row (input_data f bmi)) (eligible f bmi) else [])"
    by (simp add: rep w assess_eq)
  have res: "what_if rep \<noteq> None \<longleftrightarrow> at_risk rep \<and> eligible f bmi \<noteq> []"
  proof (cases "at_risk rep \<and> eligible f bmi \<noteq> []")
    case True
    then have "eligible f bmi \<noteq> []" by simp
    from best_drop_graph [OF this, of "delta m (input_data f bmi)"] True show ?thesis
      by (auto simp add: rep assess_eq)
  next
    case False
    then show ?thesis
      by (auto simp add: rep assess_eq best_drop_def)
  qed
  from risk keys calls res show ?thesis
    using eligible_subset [of f bmi] by (simp add: eligible_iff)
qed

theorem what_if_runs_on_eligible_factors_witness:
  "delivered threshold_form
   \<and> bmi_of (weight threshold_form) (height threshold_form) = Inr (Fin 22)
   \<and> on_submit step_model threshold_form
       = (Inr (fst (assess step_model threshold_form (Fin 22))),
          snd (assess step_model threshold_form (Fin 22)))
   \<and> at_risk (fst (assess step_model threshold_form (Fin 22)))
   \<and> what_if (fst (assess step_model threshold_form (Fin 22))) = None
   \<and> calls (snd (assess step_model threshold_form (Fin 22)))
       = [input_data threshold_form (Fin 22), input_data threshold_form (Fin 22)]"
proof -
  let ?rep = "fst (assess step_model threshold_form (Fin 22))"
  let ?w = "snd (assess step_model threshold_form (Fin 22))"
  have h1: "bmi_of (weight threshold_form) (height threshold_form) = Inr (Fin 22)"
    by (rule bmi_of_threshold)
  have h2: "on_submit step_model threshold_form = (Inr ?rep, ?w)"
    using h1 by (rule on_submit_Inr)
  note inst = what_if_runs_on_eligible_factors [OF h1 h2]
  have p: "predict step_model (input_data threshold_form (Fin 22)) = 1"
    by (simp add: step_model_def)
  from inst p have risk: "at_risk ?rep" by blast
  from inst have "what_if ?rep \<noteq> None \<longleftrightarrow> at_risk ?rep \<and> eligible threshold_form (Fin 22) \<noteq> []"
    by blast
  then have none: "what_if ?rep = None"
    unfolding eligible_threshold by blast
  from inst risk have "calls ?w
      = [input_data threshold_form (Fin 22), input_data threshold_form (Fin 22)]"
    by (simp add: eligible_threshold)
  with h1 h2 risk none delivered_samples(3) show ?thesis by blast
qed

section \<open>The message does not require a positive drop\<close>

text \<open>
  \<^bold>\<open>C9.\<close> In a run that succeeds and classifies the patient as at risk, with at least
  one eligible factor, a message is shown for one of the eligible factors, whatever the
  drops are. When every drop is zero or negative, so is the percentage of the message.
\<close>

theorem what_if_without_positive_drop:
  assumes "bmi_of (weight f) (height f) = Inr bmi"
    and "on_submit m f = (Inr rep, w)"
    and "at_risk rep"
    and "eligible f bmi \<noteq> []"
  shows "\<exists>c. c \<in> set (eligible f bmi)
           \<and> what_if rep = Some (c, float_mul (delta m (input_data f bmi) c) 100)
           \<and> ((\<forall>k \<in> set (eligible f bmi). delta m (input_data f bmi) k \<le> 0)
                \<longrightarrow> float_mul (delta m (input_data f bmi) c) 100 \<le> 0)"
proof -
  from assms(1,2) have rep: "rep = fst (assess m f bmi)"
    by (simp add: on_submit_Inr)
  with assms(3) have "what_if rep
      = best_drop (map (\<lambda>c. (c, delta m (input_data f bmi) c)) (eligible f bmi))"
    by (simp add: assess_eq split: if_splits)
  with best_drop_graph [OF assms(4), of "delta m (input_data f bmi)"] obtain c ys zs where
    res: "what_if rep = Some (c, float_mul (delta m (input_data f bmi) c) 100)"
    and split: "eligible f bmi = ys @ c # zs"
    by auto
  from split have mem: "c \<in> set (eligible f bmi)" by simp
  have "float_mul (delta m (input_data f bmi) c) 100 \<le> 0"
    if "\<forall>k \<in> set (eligible f bmi). delta m (input_data f bmi) k \<le> 0"
  proof -
    from that mem have "delta m (input_data f bmi) c \<le> 0" by blast
    then have "delta m (input_data f bmi) c * 100 \<le> 0" by simp
    then show ?thesis unfolding float_mul_def by (rule fl64_nonpos)
  qed
  with res mem show ?thesis by blast
qed

theorem what_if_without_positive_drop_witness:
  "bmi_of (weight high_bmi_form) (height high_bmi_form)
     = Inr (Fin (6842656683836047 / 281474976710656))
   \<and> on_submit contrary_model high_bmi_form
       = (Inr (fst (assess contrary_model high_bmi_form (Fin (6842656683836047 / 281474976710656)))),
          snd (assess contrary_model high_bmi_form (Fin (6842656683836047 / 281474976710656))))
   \<and> at_risk (fst (assess contrary_model high_bmi_form (Fin (6842656683836047 / 281474976710656))))
   \<and> eligible high_bmi_form (Fin (6842656683836047 / 281474976710656)) \<noteq> []
   \<and> what_if (fst (assess contrary_model high_bmi_form (Fin (6842656683836047 / 281474976710656))))
       = Some (''BMI'', - 25)"
proof -
  let ?bmi = "Fin (6842656683836047 / 281474976710656)"
  let ?rep = "fst (assess contrary_model high_bmi_form ?bmi)"
  let ?w = "snd (assess contrary_model high_bmi_form ?bmi)"
  have h1: "bmi_of (weight high_bmi_form) (height high_bmi_form) = Inr ?bmi"
    by (rule bmi_of_high_bmi)
  have h2: "on_submit contrary_model high_bmi_form = (Inr ?rep, ?w)"
    using h1 by (rule on_submit_Inr)
  have h3: "at_risk ?rep"
    by (simp add: assess_eq contrary_model_def)
  have h4: "eligible high_bmi_form ?bmi \<noteq> []"
    by (simp add: eligible_high_bmi)
  from what_if_without_positive_drop [OF h1 h2 h3 h4] obtain c where
    mem: "c \<in> set (eligible high_bmi_form ?bmi)"
    and res: "what_if ?rep = Some (c, float_mul (delta contrary_model (input_data high_bmi_form ?bmi) c) 100)"
    by blast
  from mem have c: "c = ''BMI''"
    by (simp add: eligible_high_bmi)
  have "float_mul (- (1 / 4)) 100 = - 25"
    by (simp add: float_mul_def float_eval)
  with res c have "what_if ?rep = Some (''BMI'', - 25)"
    by (simp add: delta_contrary_high_bmi)
  with h1 h2 h3 h4 show ?thesis by blast
qed

section \<open>Suggestions\<close>

lemma health_suggestions_table:
  "health_suggestions bmi glu ins bp fh =
     filter (\<lambda>s. (s = bmi_warning \<and> float_gt bmi 22) \<or> (s = glucose_warning \<and> 110 < glu)
                \<or> (s = insulin_warning \<and> 25 < ins) \<or> (s = pressure_warning \<and> 120 < bp)
                \<or> (s = family_info \<and> fh \<noteq> 0)) suggestion_table"
  by (simp add: health_suggestions_def suggestion_table_def bmi_warning_def glucose_warning_def
      insulin_warning_def pressure_warning_def family_info_def)

lemma fl64_2201: "fl64 (2201 / 100) = 6195264237401539 / 281474976710656"
  by (simp add: float_eval)

lemma bmi_of_2201: "bmi_of 45 143 = Inr (Fin (6195264237401539 / 281474976710656))"
  by (simp add: bmi_eval)

text \<open>
  \<^bold>\<open>C6.\<close> Each suggestion is shown exactly when its condition holds, with a strict
  comparison: the BMI warning when the BMI is above 22, the glucose warning when the
  glucose is above 110, the insulin warning when the insulin is above 25, the blood
  pressure warning when the blood pressure is above 120, the family history note when
  the family history is "Yes". The suggestions shown are a subsequence of the table
  (BMI, Glucose, Insulin, BloodPressure, FamilyHistory), each at most once. A BMI of
  22.0 gives no BMI warning and a BMI of 22.01 gives one; the form reaches the first with
  22 kg at 100 cm and the second with 45 kg at 143 cm.
\<close>

theorem suggestions_follow_strict_thresholds:
  "(bmi_warning \<in> set (suggestions (fst (assess m f bmi))) \<longleftrightarrow> float_gt bmi 22)
   \<and> (glucose_warning \<in> set (suggestions (fst (assess m f bmi))) \<longleftrightarrow> 110 < glucose f)
   \<and> (insulin_warning \<in> set (suggestions (fst (assess m f bmi))) \<longleftrightarrow> 25 < insulin f)
   \<and> (pressure_warning \<in> set (suggestions (fst (assess m f bmi))) \<longleftrightarrow> 120 < blood_pressure f)
   \<and> (family_info \<in> set (suggestions (fst (assess m f bmi))) \<longleftrightarrow> family_history f = Yes)
   \<and> subseq (suggestions (fst (assess m f bmi))) suggestion_table
   \<and> distinct (suggestions (fst (assess m f bmi)))
   \<and> bmi_warning \<notin> set (suggestions (fst (assess m f (Fin 22))))
   \<and> bmi_warning \<in> set (suggestions (fst (assess m f (Fin (fl64 (2201 / 100))))))
   \<and> bmi_of 22 100 = Inr (Fin 22)
   \<and> bmi_of 45 143 = Inr (Fin (fl64 (2201 / 100)))"
proof -
  let ?S = "suggestions (fst (assess m f bmi))"
  have S: "suggestions (fst (assess m f b)) =
      health_suggestions b (glucose f) (insulin f) (blood_pressure f)
        (family_history_encoded (family_history f))" for b
    by (simp add: assess_eq)
  have mem: "(bmi_warning \<in> set ?S \<longleftrightarrow> float_gt bmi 22)
      \<and> (glucose_warning \<in> set ?S \<longleftrightarrow> 110 < glucose f)
      \<and> (insulin_warning \<in> set ?S \<longleftrightarrow> 25 < insulin f)
      \<and> (pressure_warning \<in> set ?S \<longleftrightarrow> 120 < blood_pressure f)
      \<and> (family_info \<in> set ?S \<longleftrightarrow> family_history f = Yes)"
    by (simp add: S health_suggestions_def bmi_warning_def glucose_warning_def
        insulin_warning_def pressure_warning_def family_info_def family_history_encoded_def)
  have sub: "subseq ?S suggestion_table"
    unfolding S health_suggestions_table by (rule subseq_filter_left)
  have dist: "distinct ?S"
    unfolding S health_suggestions_table
    by (rule distinct_filter)
      (simp add: suggestion_table_def bmi_warning_def glucose_warning_def
        insulin_warning_def pressure_warning_def family_info_def)
  have at22: "bmi_warning \<notin> set (suggestions (fst (assess m f (Fin 22))))"
    by (simp add: S health_suggestions_def bmi_warning_def)
  have at2201: "bmi_warning \<in> set (suggestions (fst (assess m f (Fin (fl64 (2201 / 100))))))"
    by (simp add: S health_suggestions_def bmi_warning_def fl64_2201)
  from mem sub dist at22 at2201 show ?thesis
    by (simp add: bmi_of_22 bmi_of_2201 fl64_2201)
qed

section \<open>The encoded row\<close>

lemma fl64_2431: "fl64 (2431 / 100) = 6842656683836047 / 281474976710656"
  by (simp add: float_eval)

text \<open>
  \<^bold>\<open>C7.\<close> The encoded row has the eight columns Age, Sex, BMI, Glucose, Insulin,
  BloodPressure, PhysicalActivityLevel, FamilyHistory in this order, with Male as 1 and
  Female as 0, Sedentary, Moderate and Active as 0, 1 and 2, and a family history of
  "Yes" as 1 and "No" as 0; it is the row of the first query of the classifier. For the
  patient of the scenario (age 10, Male, 120 cm, 35 kg, glucose 130, insulin 30, blood
  pressure 95, Sedentary, family history) the BMI is 24.31 and the row is
  10, 1, 24.31, 130, 30, 95, 0, 1.
\<close>

theorem encoded_row_layout:
  "map fst (input_data f bmi)
     = [''Age'', ''Sex'', ''BMI'', ''Glucose'', ''Insulin'', ''BloodPressure'',
        ''PhysicalActivityLevel'', ''FamilyHistory'']
   \<and> map snd (input_data f bmi)
     = [num (age f), num (sex_encoded (sex f)), bmi, num (glucose f), num (insulin f),
        num (blood_pressure f), num (activity_map (activity f)),
        num (family_history_encoded (family_history f))]
   \<and> length (input_data f bmi) = 8
   \<and> sex_encoded Male = 1 \<and> sex_encoded Female = 0
   \<and> activity_map Sedentary = 0 \<and> activity_map Moderate = 1 \<and> activity_map Active = 2
   \<and> family_history_encoded Yes = 1 \<and> family_history_encoded No = 0
   \<and> hd (calls (snd (assess m f bmi))) = input_data f bmi
   \<and> bmi_of (weight scenario_form) (height scenario_form) = Inr (Fin (fl64 (2431 / 100)))
   \<and> map snd (input_data scenario_form (Fin (fl64 (2431 / 100))))
     = [num 10, num 1, Fin (fl64 (2431 / 100)), num 130, num 30, num 95, num 0, num 1]"
proof -
  have "hd (calls (snd (assess m f bmi))) = input_data f bmi"
    by (simp add: assess_eq)
  moreover have "map snd (input_data scenario_form b)
     = [num 10, num 1, b, num 130, num 30, num 95, num 0, num 1]" for b
    by (simp add: input_data_scenario columns_def)
  ultimately show ?thesis
    by (simp add: input_data_def columns_def sex_encoded_def family_history_encoded_def
        bmi_of_scenario fl64_2431)
qed

section \<open>Two runs on the same form\<close>

lemma on_submit_Inl:
  "bmi_of (weight f) (height f) = Inl e \<Longrightarrow>
     on_submit m f = (Inl e, \<lparr>frames = [], calls = [], changes = []\<rparr>)"
  by (simp add: on_submit_def)

lemma assess_cong:
  assumes base: "predict m' (input_data f bmi) = predict m (input_data f bmi)"
      "predict_proba m' (input_data f bmi) = predict_proba m (input_data f bmi)"
    and probes: "predict m (input_data f bmi) = 1 \<Longrightarrow>
      \<forall>c \<in> set (eligible f bmi).
        predict_proba m' (probe_row (input_data f bmi) c)
          = predict_proba m (probe_row (input_data f bmi) c)"
  shows "assess m' f bmi = assess m f bmi"
proof (cases "predict m (input_data f bmi) = 1")
  case True
  from probes [OF True] base(2)
  have eq: "map (\<lambda>c. (c, delta m' (input_data f bmi) c)) (eligible f bmi)
      = map (\<lambda>c. (c, delta m (input_data f bmi) c)) (eligible f bmi)"
    by (simp add: delta_def)
  show ?thesis unfolding assess_eq eq base by (rule refl)
next
  case False
  with base show ?thesis by (simp add: assess_eq)
qed

text \<open>
  \<^bold>\<open>C8.\<close> The result of a run, that is the label, the probability, the suggestions, the
  message of the what-if analysis and the final state, is a function of the form and of
  the answers of the classifier to the queries of the run: a second run on the same
  form, with a classifier that gives the same answers to these queries, has the same
  result. In particular two runs with the same form and the same classifier agree.
\<close>

theorem run_determined_by_answers:
  assumes "\<forall>df \<in> set (calls (snd (on_submit m f))).
             predict m' df = predict m df \<and> predict_proba m' df = predict_proba m df"
  shows "on_submit m' f = on_submit m f"
proof (cases "bmi_of (weight f) (height f)")
  case (Inl e)
  then show ?thesis by (simp add: on_submit_Inl)
next
  case (Inr bmi)
  let ?df = "input_data f bmi"
  have calls: "calls (snd (on_submit m f)) = [?df, ?df] @
      (if predict m ?df = 1 then map (probe_row ?df) (eligible f bmi) else [])"
    by (simp add: on_submit_Inr [OF Inr] assess_eq)
  from assms have base: "predict m' ?df = predict m ?df"
      "predict_proba m' ?df = predict_proba m ?df"
    unfolding calls by simp_all
  have probes: "\<forall>c \<in> set (eligible f bmi).
      predict_proba m' (probe_row ?df c) = predict_proba m (probe_row ?df c)"
    if "predict m ?df = 1"
    using assms that unfolding calls by simp
  from base probes have "assess m' f bmi = assess m f bmi"
    by (rule assess_cong)
  then show ?thesis by (simp add: on_submit_Inr [OF Inr])
qed

lemma calls_step_scenario:
  "calls (snd (on_submit step_model scenario_form))
     = [zip columns [num 10, num 1, Fin (6842656683836047 / 281474976710656),
                     num 130, num 30, num 95, num 0, num 1],
        zip columns [num 10, num 1, Fin (6842656683836047 / 281474976710656),
                     num 130, num 30, num 95, num 0, num 1],
        zip columns [num 10, num 1, num 20, num 130, num 30, num 95, num 0, num 1],
        zip columns [num 10, num 1, Fin (6842656683836047 / 281474976710656),
                     num 100, num 30, num 95, num 0, num 1],
        zip columns [num 10, num 1, Fin (6842656683836047 / 281474976710656),
                     num 130, num 20, num 95, num 0, num 1]]"
  by (simp add: on_submit_Inr [OF bmi_of_scenario] assess_eq eligible_scenario
      input_data_scenario probe_row_def reference_value_def columns_def step_model_def)

theorem run_determined_by_answers_witness:
  "list_all (\<lambda>df. predict other_model df = predict step_model df
                 \<and> predict_proba other_model df = predict_proba step_model df)
     (calls (snd (on_submit step_model scenario_form)))
   \<and> other_model \<noteq> step_model
   \<and> on_submit other_model scenario_form = on_submit step_model scenario_form"
proof -
  have h: "\<forall>df \<in> set (calls (snd (on_submit step_model scenario_form))).
      predict other_model df = predict step_model df
    \<and> predict_proba other_model df = predict_proba step_model df"
    unfolding calls_step_scenario by (simp add: other_model_def columns_def)
  have "predict other_model [] \<noteq> predict step_model []"
    by (simp add: other_model_def step_model_def)
  then have "other_model \<noteq> step_model" by auto
  with h run_determined_by_answers [OF h] show ?thesis
    unfolding list_all_iff by blast
qed

section \<open>Line 124 outside the bounds of the form\<close>

text \<open>
  The form delivers no height below 30, so the division of line 124 never has a zero
  divisor in a run (\<open>delivered_bmi_finite\<close>, below). The source has no check of its own:
  away from the form, the expression of line 124 raises at a height of 0, and squares a
  negative height like a positive one.
\<close>

lemma bmi_of_zero_height:
  "bmi_of w 0 = Inl (if overflows (fl64 w) then OverflowError else ZeroDivisionError)"
  by (simp add: bmi_of_def raw_bmi_def div_100_def pow_2_def float_div_def fl64_def
      overflows_def pow2_def Let_def)

lemma bmi_of_negative_height:
  "bmi_of 30 (- 120) = Inr (Fin (1465780941220741 / 70368744177664))"
  by (simp add: bmi_eval)

section \<open>The BMI\<close>

lemma round_half_even_error: "\<bar>of_int (round_half_even x) - x\<bar> \<le> 1 / 2"
proof -
  have "of_int \<lfloor>x\<rfloor> \<le> x" "x < of_int \<lfloor>x\<rfloor> + 1"
    by linarith+
  then show ?thesis
    by (auto simp add: round_half_even_def Let_def abs_le_iff)
qed

lemma raw_bmi_Fin:
  assumes "raw_bmi w h = Inr (Fin q)"
  shows "q = fl64 (fl64 w / fl64 (fl64 (h / 100) * fl64 (h / 100)))"
  using assms
  by (auto simp add: raw_bmi_def div_100_def pow_2_def float_div_def Let_def
      split: sum.splits if_splits)

lemma fl64_3072: "fl64 (3072 / 100) = 1080863910568919 / 35184372088832"
  by (simp add: float_eval)

lemma fl64_2133: "fl64 (2133 / 100) = 1500965313309573 / 70368744177664"
  by (simp add: float_eval)

lemma bmi_of_3072:
  "bmi_of (1080863910568919 / 35184372088832) 120
     = Inr (Fin (1500965313309573 / 70368744177664))"
  by (simp add: bmi_eval)

section \<open>The rounding error of a float\<close>

text \<open>
  \<open>ilog2\<close> is the binary logarithm rounded down, so \<open>fl64\<close> rounds to 53 significant
  bits: away from the subnormal range the relative error is at most \<open>2\<^sup>-\<^sup>5\<^sup>3\<close>.
\<close>

lemma bit_length_nonneg: "0 \<le> bit_length n"
  by (induction n rule: bit_length.induct) (subst bit_length.simps, simp)

lemma bit_length_pos: "0 < n \<Longrightarrow> 0 < bit_length n"
  using bit_length_nonneg [of "n div 2"] by (subst bit_length.simps) simp

lemma bit_length_bounds:
  "0 < n \<Longrightarrow> 2 ^ nat (bit_length n - 1) \<le> n \<and> n < 2 ^ nat (bit_length n)"
proof (induction n rule: bit_length.induct)
  case (1 n)
  show ?case
  proof (cases "n = 1")
    case True
    then show ?thesis
      by (simp add: bit_length.simps [of 1] bit_length.simps [of 0])
  next
    case False
    with "1.prems" have half: "0 < n div 2" by simp
    from "1.prems" have bl: "bit_length n = 1 + bit_length (n div 2)"
      by (subst bit_length.simps) simp
    from "1.IH" "1.prems" half
    have ih: "2 ^ nat (bit_length (n div 2) - 1) \<le> n div 2"
      "n div 2 < 2 ^ nat (bit_length (n div 2))"
      by simp_all
    from bit_length_pos [OF half] have k: "nat (bit_length (n div 2)) = Suc (nat (bit_length (n div 2) - 1))"
      by simp
    have lo: "2 ^ nat (bit_length n - 1) \<le> n"
    proof -
      have "(2::int) ^ nat (bit_length (n div 2)) = 2 * 2 ^ nat (bit_length (n div 2) - 1)"
        by (subst k) simp
      also have "\<dots> \<le> 2 * (n div 2)" using ih(1) by simp
      also have "\<dots> \<le> n" by simp
      finally show ?thesis by (simp add: bl)
    qed
    have hi: "n < 2 ^ nat (bit_length n)"
    proof -
      have "n < 2 * (n div 2 + 1)" by simp
      also have "\<dots> \<le> 2 * 2 ^ nat (bit_length (n div 2))" using ih(2) by simp
      also have "\<dots> = 2 ^ nat (bit_length n)"
        using bit_length_nonneg [of "n div 2"] by (simp add: bl nat_add_distrib)
      finally show ?thesis .
    qed
    from lo hi show ?thesis ..
  qed
qed

lemma pow2_nat: "0 \<le> e \<Longrightarrow> pow2 e = of_int (2 ^ nat e)"
  by (simp add: pow2_def)

lemma pow2_neg: "0 \<le> e \<Longrightarrow> pow2 (- e) = 1 / of_int (2 ^ nat e)"
  by (cases "e = 0") (simp_all add: pow2_def)

lemma pow2_add: "pow2 (a + b) = pow2 a * pow2 b"
proof -
  have "pow2 e = 2 powi e" for e
    by (simp add: pow2_def power_int_def power_inverse inverse_eq_divide power_one_over)
  then show ?thesis by (simp add: power_int_add)
qed

lemma ilog2_bounds:
  assumes "0 < x"
  shows "pow2 (ilog2 x) \<le> x \<and> x < pow2 (ilog2 x + 1)"
proof (cases "1 \<le> x")
  case True
  then have n: "0 < \<lfloor>x\<rfloor>" by simp
  from bit_length_bounds [OF n]
  have lo: "2 ^ nat (bit_length \<lfloor>x\<rfloor> - 1) \<le> \<lfloor>x\<rfloor>"
    and hi: "\<lfloor>x\<rfloor> < 2 ^ nat (bit_length \<lfloor>x\<rfloor>)"
    by simp_all
  have il: "ilog2 x = bit_length \<lfloor>x\<rfloor> - 1" using True by (simp add: ilog2_def)
  have nn: "0 \<le> bit_length \<lfloor>x\<rfloor> - 1" using bit_length_pos [OF n] by simp
  have "pow2 (ilog2 x) = of_int (2 ^ nat (bit_length \<lfloor>x\<rfloor> - 1))"
    unfolding il by (rule pow2_nat [OF nn])
  also have "\<dots> \<le> of_int \<lfloor>x\<rfloor>" using lo by (simp only: of_int_le_iff)
  also have "\<dots> \<le> x" by simp
  finally have 1: "pow2 (ilog2 x) \<le> x" .
  have "\<lfloor>x\<rfloor> + 1 \<le> 2 ^ nat (bit_length \<lfloor>x\<rfloor>)" using hi by simp
  then have "of_int (\<lfloor>x\<rfloor> + 1) \<le> (of_int (2 ^ nat (bit_length \<lfloor>x\<rfloor>)) :: rat)"
    by (simp only: of_int_le_iff)
  moreover have "x < of_int (\<lfloor>x\<rfloor> + 1)" by linarith
  moreover have "pow2 (ilog2 x + 1) = of_int (2 ^ nat (bit_length \<lfloor>x\<rfloor>))"
    unfolding il using pow2_nat [of "bit_length \<lfloor>x\<rfloor>"] bit_length_nonneg [of "\<lfloor>x\<rfloor>"] by simp
  ultimately have 2: "x < pow2 (ilog2 x + 1)" by simp
  from 1 2 show ?thesis ..
next
  case False
  define y where "y = 1 / x"
  define c where "c = \<lceil>y\<rceil> - 1"
  from False assms have y1: "1 < y" by (simp add: y_def)
  then have c: "0 < c" unfolding c_def by (simp add: less_ceiling_iff)
  have x: "x = 1 / y" using assms by (simp add: y_def)
  from bit_length_bounds [OF c]
  have lo: "2 ^ nat (bit_length c - 1) \<le> c" and hi: "c < 2 ^ nat (bit_length c)"
    by simp_all
  have il: "ilog2 x = - bit_length c" using False by (simp add: ilog2_def c_def y_def)
  have blp: "0 < bit_length c" by (rule bit_length_pos [OF c])
  have "\<lceil>y\<rceil> \<le> 2 ^ nat (bit_length c)" using hi by (simp add: c_def)
  then have "of_int \<lceil>y\<rceil> \<le> (of_int (2 ^ nat (bit_length c)) :: rat)"
    by (simp only: of_int_le_iff)
  then have yle: "y \<le> of_int (2 ^ nat (bit_length c))"
    using le_of_int_ceiling [of y] by (rule order_trans [rotated])
  have "pow2 (ilog2 x) = 1 / of_int (2 ^ nat (bit_length c))"
    unfolding il using pow2_neg [of "bit_length c"] blp by simp
  also have "\<dots> \<le> 1 / y" using yle y1 by (simp add: frac_le)
  finally have 1: "pow2 (ilog2 x) \<le> x" by (simp add: x)
  have "of_int (2 ^ nat (bit_length c - 1)) \<le> (of_int c :: rat)"
    using lo by (simp only: of_int_le_iff)
  moreover have "of_int c < y" unfolding c_def by simp linarith
  ultimately have ylt: "of_int (2 ^ nat (bit_length c - 1)) < y" by (rule le_less_trans)
  have "pow2 (ilog2 x + 1) = 1 / of_int (2 ^ nat (bit_length c - 1))"
  proof -
    have "ilog2 x + 1 = - (bit_length c - 1)" by (simp add: il)
    then show ?thesis using pow2_neg [of "bit_length c - 1"] blp by simp
  qed
  moreover have "1 / y < 1 / of_int (2 ^ nat (bit_length c - 1))"
    using ylt by (simp add: frac_less2)
  ultimately have 2: "x < pow2 (ilog2 x + 1)" by (simp add: x)
  from 1 2 show ?thesis ..
qed


lemma pow2_ge_1: "0 \<le> e \<Longrightarrow> 1 \<le> pow2 e"
  by (simp add: pow2_def)

lemma pow2_mono: "a \<le> b \<Longrightarrow> pow2 a \<le> pow2 b"
proof -
  assume "a \<le> b"
  then have "1 \<le> pow2 (b - a)" by (simp add: pow2_ge_1)
  then have "pow2 a * 1 \<le> pow2 a * pow2 (b - a)"
    using pow2_pos [of a] by (simp only: mult_le_cancel_left_pos)
  then show ?thesis using pow2_add [of a "b - a"] by simp
qed

lemma fl64_error: "\<bar>fl64 x - x\<bar> \<le> pow2 (max (ilog2 \<bar>x\<bar> - 52) (- 1074)) / 2"
proof (cases "x = 0")
  case True
  then show ?thesis using pow2_pos [of "max (ilog2 \<bar>x\<bar> - 52) (- 1074)"]
    by (simp add: fl64_def)
next
  case False
  define p where "p = pow2 (max (ilog2 \<bar>x\<bar> - 52) (- 1074))"
  define r where "r = (of_int (round_half_even (x / p)) :: rat)"
  have p: "0 < p" unfolding p_def by (rule pow2_pos)
  have fl: "fl64 x = r * p" using False by (simp add: fl64_def Let_def p_def r_def)
  have "\<bar>r - x / p\<bar> \<le> 1 / 2" unfolding r_def by (rule round_half_even_error)
  then have "\<bar>r - x / p\<bar> * p \<le> 1 / 2 * p"
    using p by (simp only: mult_le_cancel_right_pos)
  moreover have "\<bar>r - x / p\<bar> * p = \<bar>r * p - x\<bar>"
  proof -
    have "\<bar>r - x / p\<bar> * p = \<bar>(r - x / p) * p\<bar>" using p by (simp add: abs_mult)
    also have "(r - x / p) * p = r * p - x" using p by (simp add: algebra_simps)
    finally show ?thesis .
  qed
  ultimately show ?thesis by (simp add: fl p_def)
qed

lemma fl64_relative:
  assumes "pow2 (- 1022) \<le> \<bar>x\<bar>"
  shows "\<bar>fl64 x - x\<bar> \<le> \<bar>x\<bar> / 9007199254740992"
proof -
  from assms pow2_pos [of "- 1022"] have pos: "0 < \<bar>x\<bar>" by linarith
  from ilog2_bounds [OF pos] have lo: "pow2 (ilog2 \<bar>x\<bar>) \<le> \<bar>x\<bar>"
    and hi: "\<bar>x\<bar> < pow2 (ilog2 \<bar>x\<bar> + 1)" by simp_all
  have il: "- 1022 \<le> ilog2 \<bar>x\<bar>"
  proof (rule ccontr)
    assume "\<not> - 1022 \<le> ilog2 \<bar>x\<bar>"
    then have "ilog2 \<bar>x\<bar> + 1 \<le> - 1022" by simp
    then have "pow2 (ilog2 \<bar>x\<bar> + 1) \<le> pow2 (- 1022)" by (rule pow2_mono)
    with hi assms show False by linarith
  qed
  then have e: "max (ilog2 \<bar>x\<bar> - 52) (- 1074) = ilog2 \<bar>x\<bar> + (- 52)" by simp
  have p52: "pow2 (- 52) = 1 / 4503599627370496" by (simp add: pow2_def)
  have "pow2 (ilog2 \<bar>x\<bar> + (- 52)) = pow2 (ilog2 \<bar>x\<bar>) * (1 / 4503599627370496)"
    unfolding pow2_add p52 by (rule refl)
  with fl64_error [of x] have "\<bar>fl64 x - x\<bar> \<le> pow2 (ilog2 \<bar>x\<bar>) / 9007199254740992"
    unfolding e by simp
  also have "\<dots> \<le> \<bar>x\<bar> / 9007199254740992" using lo by simp
  finally show ?thesis .
qed

lemma pow2_tiny: "pow2 (- 1022) \<le> 1 / 128"
proof -
  have "pow2 (- 1022) \<le> pow2 (- 7)" by (rule pow2_mono) simp
  also have "pow2 (- 7) = 1 / 128" by (simp add: pow2_def)
  finally show ?thesis .
qed

lemma fl64_between:
  assumes "1 / 128 \<le> x"
  shows "x * (1 - 1 / 9007199254740992) \<le> fl64 x \<and> fl64 x \<le> x * (1 + 1 / 9007199254740992)"
proof -
  from assms have x: "0 < x" "\<bar>x\<bar> = x" by simp_all
  from assms pow2_tiny have "pow2 (- 1022) \<le> \<bar>x\<bar>" by simp
  from fl64_relative [OF this] have "\<bar>fl64 x - x\<bar> \<le> x / 9007199254740992"
    by (simp add: x)
  then have "fl64 x - x \<le> x / 9007199254740992" and "x - fl64 x \<le> x / 9007199254740992"
    by (simp_all only: abs_le_iff minus_diff_eq)
  then show ?thesis by (simp add: right_diff_distrib distrib_left)
qed

lemma pow2_huge: "2048 \<le> pow2 1024"
proof -
  have "pow2 11 \<le> pow2 1024" by (rule pow2_mono) simp
  moreover have "pow2 11 = 2048" by (simp add: pow2_def)
  ultimately show ?thesis by simp
qed

lemma no_overflow: "\<bar>r\<bar> < 2048 \<Longrightarrow> \<not> overflows r"
  using pow2_huge by (simp add: overflows_def)

section \<open>The BMI in the ranges of the form\<close>

lemma unit_roundoff_bounds:
  "(9007199254740993 / 9007199254740992) ^ 2 / (9007199254740991 / 9007199254740992) ^ 3
     \<le> (1 + 6 / 9007199254740992 :: rat)"
  "(1 - 6 / 9007199254740992 :: rat)
     \<le> (9007199254740991 / 9007199254740992) ^ 2 / (9007199254740993 / 9007199254740992) ^ 3"
  by (simp_all add: power2_eq_square power3_eq_cube)

lemma raw_bmi_in_range:
  assumes h: "30 \<le> h" "h \<le> 200" and w: "5 \<le> w" "w \<le> 150"
  shows "\<exists>q. raw_bmi w h = Inr (Fin q)
           \<and> w / (h / 100)\<^sup>2 * (1 - 6 / 9007199254740992) \<le> q
           \<and> q \<le> w / (h / 100)\<^sup>2 * (1 + 6 / 9007199254740992)
           \<and> 1 \<le> q \<and> q \<le> 1700"
proof -
  define L :: rat where "L = 9007199254740991 / 9007199254740992"
  define H :: rat where "H = 9007199254740993 / 9007199254740992"
  have LH: "0 < L" "L \<le> 1" "1 \<le> H" "99 / 100 \<le> L" "H \<le> 101 / 100"
    by (simp_all add: L_def H_def)
  have btw: "x * L \<le> fl64 x \<and> fl64 x \<le> x * H" if "1 / 128 \<le> x" for x
    using fl64_between [OF that] by (simp add: L_def H_def)
  define x1 where "x1 = h / 100"
  define m where "m = fl64 x1"
  define sq where "sq = fl64 (m * m)"
  define a where "a = fl64 w"
  define q where "q = fl64 (a / sq)"
  have x1: "3 / 10 \<le> x1" "x1 \<le> 2" using h by (simp_all add: x1_def)
  then have "1 / 128 \<le> x1" by simp
  from btw [OF this] have m: "x1 * L \<le> m" "m \<le> x1 * H" by (simp_all add: m_def)
  have m_lo: "29 / 100 \<le> m"
  proof -
    have "3 / 10 * (99 / 100) \<le> x1 * L" using x1(1) LH by (intro mult_mono) simp_all
    with m(1) show ?thesis by simp
  qed
  have m_hi: "m \<le> 203 / 100"
  proof -
    have "x1 * H \<le> 2 * (101 / 100)" using x1 LH by (intro mult_mono) simp_all
    with m(2) show ?thesis by simp
  qed
  have m_pos: "0 < m" using m_lo by simp
  have x1_pos: "0 < x1" using x1 by simp
  have mm_lo: "(x1 * L) * (x1 * L) \<le> m * m"
    using m(1) x1_pos m_pos LH by (intro mult_mono) simp_all
  have mm_hi: "m * m \<le> (x1 * H) * (x1 * H)"
    using m(2) m_pos by (intro mult_mono) simp_all
  have mm_num: "2 / 25 \<le> m * m" "m * m \<le> 5"
  proof -
    have "29 / 100 * (29 / 100) \<le> m * m" using m_lo by (intro mult_mono) simp_all
    then show "2 / 25 \<le> m * m" by simp
    have "m * m \<le> 203 / 100 * (203 / 100)" using m_hi m_pos by (intro mult_mono) simp_all
    then show "m * m \<le> 5" by simp
  qed
  then have "1 / 128 \<le> m * m" by simp
  from btw [OF this] have sq: "m * m * L \<le> sq" "sq \<le> m * m * H" by (simp_all add: sq_def)
  have sq_num: "7 / 100 \<le> sq" "sq \<le> 6"
  proof -
    have "2 / 25 * (99 / 100) \<le> m * m * L" using mm_num LH by (intro mult_mono) simp_all
    with sq(1) show "7 / 100 \<le> sq" by simp
    have "m * m * H \<le> 5 * (101 / 100)" using mm_num LH by (intro mult_mono) simp_all
    with sq(2) show "sq \<le> 6" by simp
  qed
  have sq_pos: "0 < sq" using sq_num by simp
  have "1 / 128 \<le> w" using w by simp
  from btw [OF this] have a: "w * L \<le> a" "a \<le> w * H" by (simp_all add: a_def)
  have a_num: "4 \<le> a" "a \<le> 152"
  proof -
    have "5 * (99 / 100) \<le> w * L" using w LH by (intro mult_mono) simp_all
    with a(1) show "4 \<le> a" by simp
    have "w * H \<le> 150 * (101 / 100)" using w LH by (intro mult_mono) simp_all
    with a(2) show "a \<le> 152" by simp
  qed
  have x4_num: "2 / 3 \<le> a / sq"
  proof -
    have "4 / 6 \<le> a / sq"
      using a_num sq_num sq_pos by (intro frac_le) simp_all
    then show ?thesis by simp
  qed
  then have "1 / 128 \<le> a / sq" by simp
  from btw [OF this] have q: "a / sq * L \<le> q" "q \<le> a / sq * H" by (simp_all add: q_def)
  define E where "E = w / (x1 * x1)"
  have w_pos: "0 < w" using w by simp
  have E_pos: "0 < E" using w_pos x1_pos by (simp add: E_def)
  have E_hi: "E \<le> 5000 / 3"
  proof -
    have "9 / 100 \<le> x1 * x1"
      using mult_mono [of "3 / 10" x1 "3 / 10" x1] x1 by simp
    then have "w / (x1 * x1) \<le> 150 / (9 / 100)"
      using w by (intro frac_le) simp_all
    then show ?thesis by (simp add: E_def)
  qed
  have E_lo: "5 / 4 \<le> E"
  proof -
    have "x1 * x1 \<le> 4"
      using mult_mono [of x1 2 x1 2] x1 x1_pos by simp
    then have "5 / 4 \<le> w / (x1 * x1)"
      using w x1_pos by (intro frac_le) simp_all
    then show ?thesis by (simp add: E_def)
  qed
  have upper: "q \<le> E * (H\<^sup>2 / L ^ 3)"
  proof -
    have "x1 * L * (x1 * L) * L \<le> m * m * L"
      using mm_lo LH by (intro mult_right_mono) simp_all
    then have "sq \<ge> x1 * L * (x1 * L) * L"
      using sq(1) by (rule order_trans)
    moreover have "0 < x1 * L * (x1 * L) * L" using x1_pos LH by simp
    ultimately have "a / sq \<le> w * H / (x1 * L * (x1 * L) * L)"
      using a(2) a_num by (intro frac_le) simp_all
    then have "a / sq * H \<le> w * H / (x1 * L * (x1 * L) * L) * H"
      using LH by (intro mult_right_mono) simp_all
    also have "\<dots> = E * (H\<^sup>2 / L ^ 3)"
      by (simp add: E_def power2_eq_square power3_eq_cube mult_ac)
    finally show ?thesis using q(2) by simp
  qed
  have lower: "E * (L\<^sup>2 / H ^ 3) \<le> q"
  proof -
    have "m * m * H \<le> x1 * H * (x1 * H) * H"
      using mm_hi LH by (intro mult_right_mono) simp_all
    with sq(2) have "sq \<le> x1 * H * (x1 * H) * H"
      by (rule order_trans)
    then have "w * L / (x1 * H * (x1 * H) * H) \<le> a / sq"
      using a(1) a_num w_pos LH sq_pos by (intro frac_le) simp_all
    then have "w * L / (x1 * H * (x1 * H) * H) * L \<le> a / sq * L"
      using LH by (intro mult_right_mono) simp_all
    moreover have "w * L / (x1 * H * (x1 * H) * H) * L = E * (L\<^sup>2 / H ^ 3)"
      by (simp add: E_def power2_eq_square power3_eq_cube mult_ac)
    ultimately show ?thesis using q(1) by simp
  qed
  have up6: "q \<le> E * (1 + 6 / 9007199254740992)"
  proof -
    have "E * (H\<^sup>2 / L ^ 3) \<le> E * (1 + 6 / 9007199254740992)"
      using unit_roundoff_bounds(1) E_pos unfolding L_def H_def
      by (intro mult_left_mono) simp_all
    with upper show ?thesis by (rule order_trans)
  qed
  have lo6: "E * (1 - 6 / 9007199254740992) \<le> q"
  proof -
    have "E * (1 - 6 / 9007199254740992) \<le> E * (L\<^sup>2 / H ^ 3)"
      using unit_roundoff_bounds(2) E_pos unfolding L_def H_def
      by (intro mult_left_mono) simp_all
    then show ?thesis using lower by (rule order_trans)
  qed
  have q_hi: "q \<le> 1700"
  proof -
    have "E * (1 + 6 / 9007199254740992) \<le> 5000 / 3 * (101 / 100)"
      using E_hi E_pos by (intro mult_mono) simp_all
    with up6 have "q \<le> 5000 / 3 * (101 / 100)" by (rule order_trans)
    then show ?thesis by simp
  qed
  have q_lo: "1 \<le> q"
  proof -
    have "5 / 4 * (99 / 100) \<le> E * (1 - 6 / 9007199254740992)"
      using E_lo by (intro mult_mono) simp_all
    then have "5 / 4 * (99 / 100) \<le> q" using lo6 by (rule order_trans)
    then show ?thesis by simp
  qed
  have "\<not> overflows m" using m_lo m_hi by (intro no_overflow) simp
  then have d: "div_100 h = Inr m" by (simp add: div_100_def m_def x1_def)
  have "\<not> overflows sq" using sq_num by (intro no_overflow) simp
  then have p: "pow_2 m = Inr sq" by (simp add: pow_2_def sq_def)
  have "\<not> overflows a" using a_num by (intro no_overflow) simp
  moreover have "\<not> overflows q" using q_lo q_hi by (intro no_overflow) simp
  ultimately have "float_div w sq = Inr (Fin q)"
    using sq_pos by (simp add: float_div_def a_def [symmetric] q_def [symmetric])
  with d p have "raw_bmi w h = Inr (Fin q)" by (simp add: raw_bmi_def)
  moreover have "E = w / (h / 100)\<^sup>2" by (simp add: E_def x1_def power2_eq_square)
  ultimately show ?thesis using lo6 up6 q_lo q_hi by blast
qed


lemma bmi_of_in_range:
  assumes h: "30 \<le> h" "h \<le> 200" and w: "5 \<le> w" "w \<le> 150"
  shows "\<exists>q. raw_bmi w h = Inr (Fin q)
           \<and> bmi_of w h = Inr (Fin (fl64 (of_int (round_half_even (q * 100)) / 100)))
           \<and> \<bar>of_int (round_half_even (q * 100)) / 100 - q\<bar> \<le> 1 / 200
           \<and> \<bar>q - w / (h / 100)\<^sup>2\<bar> \<le> 1 / 100000000000
           \<and> \<bar>fl64 (of_int (round_half_even (q * 100)) / 100) - w / (h / 100)\<^sup>2\<bar>
                \<le> 1 / 200 + 1 / 100000000000
           \<and> 1 \<le> q \<and> q \<le> 1700"
proof -
  define E where "E = w / (h / 100)\<^sup>2"
  from raw_bmi_in_range [OF assms] obtain q where
    raw: "raw_bmi w h = Inr (Fin q)"
    and lo: "E * (1 - 6 / 9007199254740992) \<le> q"
    and hi: "q \<le> E * (1 + 6 / 9007199254740992)"
    and q: "1 \<le> q" "q \<le> 1700"
    unfolding E_def by blast
  have E_pos: "0 \<le> E" using h w by (simp add: E_def)
  have E_hi: "E \<le> 5000 / 3"
  proof -
    have "3 / 10 \<le> h / 100" using h by simp
    then have "3 / 10 * (3 / 10) \<le> h / 100 * (h / 100)"
      by (intro mult_mono) simp_all
    then have "w / (h / 100 * (h / 100)) \<le> 150 / (3 / 10 * (3 / 10))"
      using w by (intro frac_le) simp_all
    then show ?thesis by (simp add: E_def power2_eq_square)
  qed
  have qE: "\<bar>q - E\<bar> \<le> 10000 / 9007199254740992"
  proof -
    define d where "d = E * (6 / 9007199254740992)"
    have "d \<le> 5000 / 3 * (6 / 9007199254740992)"
      unfolding d_def using E_hi by (intro mult_right_mono) simp_all
    then have d: "d \<le> 10000 / 9007199254740992" by simp
    have "E * (1 + 6 / 9007199254740992) = E + d" "E * (1 - 6 / 9007199254740992) = E - d"
      by (simp_all add: d_def algebra_simps)
    with lo hi have "q \<le> E + d" "E - d \<le> q" by simp_all
    with d have "q - E \<le> 10000 / 9007199254740992" "- (q - E) \<le> 10000 / 9007199254740992"
      by linarith+
    then show ?thesis by (rule abs_leI)
  qed
  define k where "k = round_half_even (q * 100)"
  define y where "y = (of_int k :: rat) / 100"
  have "\<bar>of_int k - q * 100\<bar> \<le> 1 / 2"
    unfolding k_def by (rule round_half_even_error)
  then have yq: "\<bar>y - q\<bar> \<le> 1 / 200"
    by (simp add: y_def abs_le_iff field_simps)
  with q have y: "199 / 200 \<le> y" "y \<le> 1701" by linarith+
  then have "1 / 128 \<le> y" by simp
  from fl64_between [OF this]
  have "y - y * (1 / 9007199254740992) \<le> fl64 y"
    and "fl64 y \<le> y + y * (1 / 9007199254740992)"
    by (simp_all add: algebra_simps)
  moreover have "y * (1 / 9007199254740992) \<le> 1701 * (1 / 9007199254740992)"
    using y by (intro mult_right_mono) simp_all
  ultimately have err: "\<bar>fl64 y - y\<bar> \<le> 1701 / 9007199254740992"
    by linarith
  have "\<bar>fl64 y - E\<bar> \<le> \<bar>fl64 y - y\<bar> + \<bar>y - q\<bar> + \<bar>q - E\<bar>" by linarith
  with err yq qE have total: "\<bar>fl64 y - E\<bar> \<le> 1 / 200 + 1 / 100000000000" by linarith
  from qE have qE': "\<bar>q - E\<bar> \<le> 1 / 100000000000" by linarith
  have "bmi_of w h = Inr (Fin (fl64 y))"
    by (simp add: bmi_of_def raw y_def k_def)
  with raw yq qE' total q show ?thesis unfolding y_def k_def E_def by blast
qed

section \<open>Rounding next to a tie, and the threshold of 22\<close>

lemma round_half_even_unique:
  assumes "\<bar>of_int n - y\<bar> < 1 / 2"
  shows "round_half_even y = n"
proof -
  have fl: "of_int \<lfloor>y\<rfloor> \<le> y" "y < of_int \<lfloor>y\<rfloor> + 1" by linarith+
  from assms have "y - 1 / 2 < of_int n" "of_int n < y + 1 / 2" by linarith+
  with fl have "of_int \<lfloor>y\<rfloor> - 1 < (of_int n :: rat)" "(of_int n :: rat) < of_int \<lfloor>y\<rfloor> + 3 / 2"
    by linarith+
  then have "of_int (\<lfloor>y\<rfloor> - 1) < (of_int n :: rat)" "(of_int n :: rat) < of_int (\<lfloor>y\<rfloor> + 2)"
    by simp_all
  then have "\<lfloor>y\<rfloor> - 1 < n" "n < \<lfloor>y\<rfloor> + 2"
    by (simp_all only: of_int_less_iff)
  then consider "n = \<lfloor>y\<rfloor>" | "n = \<lfloor>y\<rfloor> + 1" by linarith
  then show ?thesis
  proof cases
    case 1
    with assms have "y - of_int \<lfloor>y\<rfloor> < 1 / 2" by linarith
    then show ?thesis using 1 by (simp add: round_half_even_def Let_def)
  next
    case 2
    with assms have "\<bar>of_int \<lfloor>y\<rfloor> + 1 - y\<bar> < 1 / 2" by simp
    then have "1 / 2 < y - of_int \<lfloor>y\<rfloor>" by linarith
    then show ?thesis using 2 by (simp add: round_half_even_def Let_def)
  qed
qed

lemma round_half_even_off_tie:
  fixes x :: rat and M Q :: int
  assumes Q: "0 < Q" and M: "of_int M = 2 * of_int Q * x" and tie: "frac x \<noteq> 1 / 2"
  shows "\<bar>of_int (round_half_even x) - x\<bar> \<le> 1 / 2 - 1 / (2 * of_int Q)"
proof -
  define d where "d = x - of_int \<lfloor>x\<rfloor>"
  have d: "0 \<le> d" "d < 1" unfolding d_def by linarith+
  have dt: "d \<noteq> 1 / 2" using tie by (simp add: d_def frac_def)
  define N where "N = M - 2 * Q * \<lfloor>x\<rfloor> - Q"
  have N: "(of_int N :: rat) = 2 * of_int Q * (d - 1 / 2)"
    by (simp add: N_def M d_def algebra_simps)
  have Qr: "(0 :: rat) < of_int Q" using Q by simp
  show ?thesis
  proof (cases "d < 1 / 2")
    case True
    then have "2 * of_int Q * (d - 1 / 2) < 0" using Qr by (simp add: mult_less_0_iff)
    then have "(of_int N :: rat) < of_int 0" using N by simp
    then have "N < 0" by (simp only: of_int_less_iff)
    then have "N \<le> - 1" by simp
    then have "(of_int N :: rat) \<le> of_int (- 1)" by (simp only: of_int_le_iff)
    then have "2 * of_int Q * (d - 1 / 2) \<le> - 1" using N by simp
    then have "d - 1 / 2 \<le> - 1 / (2 * of_int Q)"
      using Qr by (simp add: field_simps)
    moreover have "round_half_even x = \<lfloor>x\<rfloor>"
      using True by (simp add: round_half_even_def Let_def d_def)
    ultimately show ?thesis using d by (simp add: d_def; linarith)
  next
    case False
    with dt have gt: "1 / 2 < d" by simp
    then have "0 < 2 * of_int Q * (d - 1 / 2)" using Qr by simp
    then have "(of_int 0 :: rat) < of_int N" using N by simp
    then have "0 < N" by (simp only: of_int_less_iff)
    then have "1 \<le> N" by simp
    then have "(of_int 1 :: rat) \<le> of_int N" by (simp only: of_int_le_iff)
    then have "1 \<le> 2 * of_int Q * (d - 1 / 2)" using N by simp
    then have "1 / (2 * of_int Q) \<le> d - 1 / 2"
      using Qr by (simp add: field_simps)
    moreover have "round_half_even x = \<lfloor>x\<rfloor> + 1"
      using gt by (simp add: round_half_even_def Let_def d_def)
    ultimately show ?thesis using d by (simp add: d_def; linarith)
  qed
qed

lemma round_half_even_stable:
  fixes x y :: rat and M Q :: int
  assumes Q: "0 < Q" and M: "of_int M = 2 * of_int Q * x" and tie: "frac x \<noteq> 1 / 2"
    and near: "\<bar>y - x\<bar> < 1 / (2 * of_int Q)"
  shows "round_half_even y = round_half_even x"
proof -
  from round_half_even_off_tie [OF Q M tie] near
  have "\<bar>of_int (round_half_even x) - y\<bar> < 1 / 2" by linarith
  then show ?thesis by (rule round_half_even_unique)
qed

lemma threshold_gap_list:
  "list_all (\<lambda>h :: int. 220059 * (h * h) \<le> 100000000 * (22 * (h * h) div 10000 + 1)
       \<and> (22 * (h * h) mod 10000 \<noteq> 0 \<or> h = 100 \<or> h = 200)) [30..200]"
  by (simp add: upto_rec_numeral)

lemma threshold_gap:
  fixes h :: int
  assumes "30 \<le> h" "h \<le> 200"
  shows "220059 * (h * h) \<le> 100000000 * (22 * (h * h) div 10000 + 1)
       \<and> (22 * (h * h) mod 10000 \<noteq> 0 \<or> h = 100 \<or> h = 200)"
proof -
  from assms have mem: "h \<in> set [30..200]" unfolding set_upto by simp
  from threshold_gap_list mem show ?thesis
    unfolding list_all_iff by (rule bspec)
qed

lemma raw_bmi_exactly_22:
  "raw_bmi 22 100 = Inr (Fin 22)"
  "raw_bmi 88 200 = Inr (Fin 22)"
  by (simp_all add: bmi_eval)

lemma exact_quotient_int:
  fixes hh ww :: int
  assumes "30 \<le> hh" "hh \<le> 200"
  shows "of_int ww / (of_int hh / 100)\<^sup>2 = (10000 * of_int ww / of_int (hh * hh) :: rat)"
    and "(0 :: rat) < of_int (hh * hh)" and "(of_int (hh * hh) :: rat) \<le> 40000"
proof -
  from assms have "hh * hh \<le> 200 * 200" by (intro mult_mono) simp_all
  then have "(of_int (hh * hh) :: rat) \<le> of_int (200 * 200)" by (simp only: of_int_le_iff)
  then show "(of_int (hh * hh) :: rat) \<le> 40000" by simp
  from assms have "0 < hh * hh" by simp
  then show "(0 :: rat) < of_int (hh * hh)" by (simp only: of_int_0_less_iff)
  from assms have "(of_int hh :: rat) \<noteq> 0" by simp
  then show "of_int ww / (of_int hh / 100)\<^sup>2 = (10000 * of_int ww / of_int (hh * hh) :: rat)"
    by (simp add: power2_eq_square field_simps)
qed

lemma raw_bmi_int_off_tie:
  fixes hh ww :: int
  assumes r: "30 \<le> hh" "hh \<le> 200" "5 \<le> ww" "ww \<le> 150"
    and raw: "raw_bmi (of_int ww) (of_int hh) = Inr (Fin q)"
    and tie: "frac (of_int ww / (of_int hh / 100)\<^sup>2 * 100 :: rat) \<noteq> 1 / 2"
  shows "round_half_even (q * 100) = round_half_even (of_int ww / (of_int hh / 100)\<^sup>2 * 100)"
proof -
  define E :: rat where "E = of_int ww / (of_int hh / 100)\<^sup>2"
  define H2 :: rat where "H2 = of_int (hh * hh)"
  have E: "E = 10000 * of_int ww / H2"
    using exact_quotient_int(1) [OF r(1,2), of ww] by (simp add: E_def H2_def)
  have H2: "0 < H2" "H2 \<le> 40000"
    using exact_quotient_int(2,3) [OF r(1,2)] by (simp_all add: H2_def)
  have rr: "30 \<le> (of_int hh :: rat)" "(of_int hh :: rat) \<le> 200"
    "5 \<le> (of_int ww :: rat)" "(of_int ww :: rat) \<le> 150"
    using r by simp_all
  from bmi_of_in_range [OF rr] raw have qE: "\<bar>q - E\<bar> \<le> 1 / 100000000000"
    unfolding E_def by auto
  have Q: "0 < hh * hh" using r by simp
  have M: "of_int (2 * 1000000 * ww) = 2 * of_int (hh * hh) * (E * 100)"
  proof -
    have "2 * H2 * (E * 100) = 2 * 1000000 * of_int ww"
      using H2 by (simp add: E)
    then show ?thesis by (simp add: H2_def)
  qed
  have "1 / 80000 \<le> 1 / (2 * H2)"
    using H2 by (intro frac_le) simp_all
  moreover have "\<bar>q * 100 - E * 100\<bar> \<le> 1 / 1000000000" using qE by linarith
  ultimately have near: "\<bar>q * 100 - E * 100\<bar> < 1 / (2 * of_int (hh * hh))"
    unfolding H2_def by linarith
  from tie have tie': "frac (E * 100) \<noteq> 1 / 2" by (simp add: E_def)
  from round_half_even_stable [OF Q M tie' near] show ?thesis by (simp add: E_def)
qed


lemma fl64_22: "fl64 22 = 22"
  by (simp add: float_eval)

lemma raw_bmi_int_threshold:
  fixes hh ww :: int
  assumes r: "30 \<le> hh" "hh \<le> 200" "5 \<le> ww" "ww \<le> 150"
    and raw: "raw_bmi (of_int ww) (of_int hh) = Inr (Fin q)"
  shows "float_gt (py_round2 (Fin q)) 22 \<longleftrightarrow> 22 < q"
proof -
  define E :: rat where "E = of_int ww / (of_int hh / 100)\<^sup>2"
  define H2 :: rat where "H2 = of_int (hh * hh)"
  have E: "E = 10000 * of_int ww / H2"
    using exact_quotient_int(1) [OF r(1,2), of ww] by (simp add: E_def H2_def)
  have H2: "0 < H2" "H2 \<le> 40000"
    using exact_quotient_int(2,3) [OF r(1,2)] by (simp_all add: H2_def)
  have rr: "30 \<le> (of_int hh :: rat)" "(of_int hh :: rat) \<le> 200"
    "5 \<le> (of_int ww :: rat)" "(of_int ww :: rat) \<le> 150"
    using r by simp_all
  define k where "k = round_half_even (q * 100)"
  define y :: rat where "y = of_int k / 100"
  define b where "b = fl64 y"
  from bmi_of_in_range [OF rr] raw
  have qE: "\<bar>q - E\<bar> \<le> 1 / 100000000000" and q1: "1 \<le> q"
    and yq: "\<bar>y - q\<bar> \<le> 1 / 200"
    unfolding E_def y_def k_def by auto
  have round: "py_round2 (Fin q) = Fin b"
    by (simp add: b_def y_def k_def)
  have kq: "\<bar>of_int k - q * 100\<bar> \<le> 1 / 2"
    unfolding k_def by (rule round_half_even_error)
  have "1 / 128 \<le> y" using yq q1 by linarith
  from fl64_between [OF this]
  have bl: "y * (1 - 1 / 9007199254740992) \<le> b" and bu: "b \<le> y * (1 + 1 / 9007199254740992)"
    by (simp_all add: b_def)
  have i: "22 < b \<longleftrightarrow> 2201 \<le> k"
  proof
    assume "22 < b"
    show "2201 \<le> k"
    proof (rule ccontr)
      assume "\<not> 2201 \<le> k"
      then consider "k = 2200" | "k \<le> 2199" by linarith
      then show False
      proof cases
        case 1
        then have "b = 22" by (simp add: b_def y_def fl64_22)
        with \<open>22 < b\<close> show False by simp
      next
        case 2
        then have "(of_int k :: rat) \<le> of_int 2199" by (simp only: of_int_le_iff)
        then have "y \<le> 2199 / 100" by (simp add: y_def)
        then have "y * (1 + 1 / 9007199254740992) \<le> 2199 / 100 * (1 + 1 / 9007199254740992)"
          by (intro mult_right_mono) simp_all
        also have "\<dots> < 22" by simp
        finally show False using bu \<open>22 < b\<close> by linarith
      qed
    qed
  next
    assume "2201 \<le> k"
    then have "(of_int 2201 :: rat) \<le> of_int k" by (simp only: of_int_le_iff)
    then have "2201 / 100 \<le> y" by (simp add: y_def)
    then have "2201 / 100 * (1 - 1 / 9007199254740992) \<le> y * (1 - 1 / 9007199254740992)"
      by (intro mult_right_mono) simp_all
    moreover have "22 < 2201 / 100 * (1 - 1 / 9007199254740992 :: rat)" by simp
    ultimately show "22 < b" using bl by linarith
  qed
  have ii: "2201 \<le> k \<longleftrightarrow> 22 < q"
  proof
    assume "2201 \<le> k"
    then have "(2201 :: rat) \<le> of_int k" by simp
    with kq show "22 < q" by linarith
  next
    assume above: "22 < q"
    define A where "A = 22 * (hh * hh)"
    define B where "B = 10000 * ww"
    have EB: "E = of_int B / H2" by (simp add: E B_def)
    have AH: "(of_int A :: rat) = 22 * H2" by (simp add: A_def H2_def)
    consider "B < A" | "B = A" | "A < B" by linarith
    then show "2201 \<le> k"
    proof cases
      case 1
      then have "B \<le> A - 1" by simp
      then have "(of_int B :: rat) \<le> of_int (A - 1)" by (simp only: of_int_le_iff)
      then have "(of_int B :: rat) \<le> 22 * H2 - 1" using AH by simp
      then have "E \<le> (22 * H2 - 1) / H2"
        unfolding EB using H2 by (intro divide_right_mono) simp_all
      also have "(22 * H2 - 1) / H2 = 22 - 1 / H2" using H2 by (simp add: field_simps)
      finally have "E \<le> 22 - 1 / H2" .
      moreover have "1 / 40000 \<le> 1 / H2" using H2 by (intro frac_le) simp_all
      ultimately have "E \<le> 22 - 1 / 40000" by linarith
      with qE above show ?thesis by linarith
    next
      case 2
      then have "22 * (hh * hh) = 10000 * ww" unfolding A_def B_def by (rule sym)
      then have "22 * (hh * hh) mod 10000 = 0" by (simp only: mod_mult_self1_is_0)
      with threshold_gap [OF r(1,2)] have "hh = 100 \<or> hh = 200" by blast
      then have "raw_bmi (of_int ww) (of_int hh) = Inr (Fin 22)"
      proof
        assume h: "hh = 100"
        with 2 have "ww = 22" unfolding A_def B_def by simp
        with h show ?thesis by (simp add: raw_bmi_exactly_22)
      next
        assume h: "hh = 200"
        with 2 have "ww = 88" unfolding A_def B_def by simp
        with h show ?thesis by (simp add: raw_bmi_exactly_22)
      qed
      with raw have "q = 22" by simp
      with above show ?thesis by simp
    next
      case 3
      have "A = 10000 * (A div 10000) + A mod 10000" by simp
      moreover have "0 \<le> A mod 10000" by simp
      ultimately have "10000 * (A div 10000) < 10000 * ww" using 3 unfolding B_def by linarith
      then have "A div 10000 + 1 \<le> ww" by simp
      then have "100000000 * (A div 10000 + 1) \<le> 100000000 * ww" by simp
      with threshold_gap [OF r(1,2)] have "220059 * (hh * hh) \<le> 100000000 * ww"
        unfolding A_def by linarith
      then have "(of_int (220059 * (hh * hh)) :: rat) \<le> of_int (100000000 * ww)"
        by (simp only: of_int_le_iff)
      then have "220059 * H2 \<le> 10000 * of_int B" by (simp add: H2_def B_def)
      then have "220059 / 10000 * H2 \<le> of_int B" by simp
      then have "220059 / 10000 \<le> E"
        unfolding EB using H2 by (simp add: pos_le_divide_eq)
      with qE have "220058 / 10000 \<le> q" by linarith
      with kq have "(2200 :: rat) < of_int k" by linarith
      then have "2200 < k" by simp
      then show ?thesis by simp
    qed
  qed
  from i ii have "22 < b \<longleftrightarrow> 22 < q" by simp
  then show ?thesis unfolding round by simp
qed

lemma delivered_ints:
  assumes "delivered f"
  obtains hh ww :: int where "height f = of_int hh" and "weight f = of_int ww"
    and "30 \<le> hh" and "hh \<le> 200" and "5 \<le> ww" and "ww \<le> 150"
proof -
  from assms have h: "height f = of_int \<lfloor>height f\<rfloor>" and w: "weight f = of_int \<lfloor>weight f\<rfloor>"
    and r: "30 \<le> height f" "height f \<le> 200" "5 \<le> weight f" "weight f \<le> 150"
    by (simp_all add: delivered_def)
  from r have "30 \<le> \<lfloor>height f\<rfloor>" "\<lfloor>height f\<rfloor> \<le> 200" "5 \<le> \<lfloor>weight f\<rfloor>" "\<lfloor>weight f\<rfloor> \<le> 150"
    by (simp_all add: le_floor_iff floor_le_iff)
  with h w that show ?thesis by blast
qed

lemma delivered_bmi_finite:
  assumes "delivered f"
  shows "\<exists>q. raw_bmi (weight f) (height f) = Inr (Fin q)
           \<and> bmi_of (weight f) (height f)
                = Inr (Fin (fl64 (of_int (round_half_even (q * 100)) / 100)))"
proof -
  from assms have "30 \<le> height f" "height f \<le> 200" "5 \<le> weight f" "weight f \<le> 150"
    by (simp_all add: delivered_def)
  from bmi_of_in_range [OF this] show ?thesis by blast
qed

lemma delivered_threshold:
  assumes "delivered f" and "raw_bmi (weight f) (height f) = Inr q"
  shows "float_gt (py_round2 q) 22 \<longleftrightarrow> float_gt q 22"
proof -
  from delivered_ints [OF assms(1)] obtain hh ww :: int where
    hw: "height f = of_int hh" "weight f = of_int ww"
    and r: "30 \<le> hh" "hh \<le> 200" "5 \<le> ww" "ww \<le> 150"
    by blast
  from delivered_bmi_finite [OF assms(1)] assms(2) obtain q' where q: "q = Fin q'"
    by auto
  with assms(2) have "raw_bmi (of_int ww) (of_int hh) = Inr (Fin q')"
    by (simp add: hw)
  from raw_bmi_int_threshold [OF r this] show ?thesis
    unfolding q by simp
qed

section \<open>The BMI and the exact quotient\<close>

lemma bmi_of_6_80: "bmi_of 6 80 = Inr (Fin (5274841063557693 / 562949953421312))"
  by (simp add: bmi_eval)

lemma fl64_937: "fl64 (937 / 100) = 5274841063557693 / 562949953421312"
  by (simp add: float_eval)

lemma fl64_938: "fl64 (938 / 100) = 5280470563091907 / 562949953421312"
  by (simp add: float_eval)

text \<open>
  \<^bold>\<open>C5\<close>, as stated, fails at a tie. The form delivers 80 cm and 6 kg; the exact
  quotient is 9.375, which rounds to 9.38 (with a tie going to the even neighbour as
  with a tie going up), and the BMI of line 124 is 9.37: the computed quotient is a
  little below 9.375.
\<close>

theorem bmi_at_exact_tie_counterexample:
  "delivered tie_form
   \<and> exact_bmi tie_form * 1000 = 9375
   \<and> round_half_even (exact_bmi tie_form * 100) = 938
   \<and> round_half_up (exact_bmi tie_form * 100) = 938
   \<and> bmi_of (weight tie_form) (height tie_form) = Inr (Fin (fl64 (937 / 100)))
   \<and> fl64 (937 / 100) \<noteq> fl64 (938 / 100)"
proof -
  have e: "exact_bmi tie_form * 100 = 1875 / 2"
    by (simp add: exact_bmi_def tie_form_def scenario_form_def power2_eq_square)
  have "exact_bmi tie_form * 1000 = 9375"
    by (simp add: exact_bmi_def tie_form_def scenario_form_def power2_eq_square)
  moreover have "round_half_even (exact_bmi tie_form * 100) = 938"
    unfolding e by (simp add: round_half_even_def Let_def floor_rat_numeral)
  moreover have "round_half_up (exact_bmi tie_form * 100) = 938"
    unfolding e by (simp add: round_half_up_def floor_rat_numeral)
  moreover have "bmi_of (weight tie_form) (height tie_form) = Inr (Fin (fl64 (937 / 100)))"
    using bmi_of_6_80 by (simp add: tie_form_def fl64_937)
  moreover have "fl64 (937 / 100) \<noteq> fl64 (938 / 100)"
    unfolding fl64_937 fl64_938 by simp
  ultimately show ?thesis using delivered_samples(5) by blast
qed

text \<open>
  \<^bold>\<open>C5\<close>, as amended. For every form that is delivered, line 124 raises nothing and the
  BMI is finite: it is the float nearest to the hundredth \<open>k / 100\<close>, where \<open>k\<close> is the
  computed quotient \<open>q\<close> times 100 rounded to the nearest integer, and \<open>q\<close> is
  \<^verbatim>\<open>weight / ((height / 100) ** 2)\<close> with each operation rounded to binary64. \<open>q\<close> is within
  \<open>10\<^sup>-\<^sup>1\<^sup>1\<close> of the exact quotient, and the BMI within half a hundredth plus
  \<open>10\<^sup>-\<^sup>1\<^sup>1\<close> of it. Unless the exact quotient is halfway between two hundredths,
  \<open>k / 100\<close> is the exact quotient rounded to two places. This BMI is the BMI cell of
  the encoded row. For the expression of line 124 at a height of 120 and a weight of
  30.72, the BMI is 21.33.
\<close>

theorem bmi_is_rounded_quotient:
  assumes "delivered f"
  shows "\<exists>q. raw_bmi (weight f) (height f) = Inr (Fin q)
       \<and> q = fl64 (fl64 (weight f) / fl64 (fl64 (height f / 100) * fl64 (height f / 100)))
       \<and> bmi_of (weight f) (height f)
            = Inr (Fin (fl64 (of_int (round_half_even (q * 100)) / 100)))
       \<and> \<bar>of_int (round_half_even (q * 100)) / 100 - q\<bar> \<le> 1 / 200
       \<and> \<bar>q - exact_bmi f\<bar> \<le> 1 / 100000000000
       \<and> \<bar>fl64 (of_int (round_half_even (q * 100)) / 100) - exact_bmi f\<bar>
            \<le> 1 / 200 + 1 / 100000000000
       \<and> (frac (exact_bmi f * 100) \<noteq> 1 / 2
            \<longrightarrow> round_half_even (q * 100) = round_half_even (exact_bmi f * 100))
       \<and> map_of (input_data f (Fin (fl64 (of_int (round_half_even (q * 100)) / 100)))) ''BMI''
            = Some (Fin (fl64 (of_int (round_half_even (q * 100)) / 100)))
       \<and> bmi_of (fl64 (3072 / 100)) 120 = Inr (Fin (fl64 (2133 / 100)))"
proof -
  from delivered_ints [OF assms] obtain hh ww :: int where
    hw: "height f = of_int hh" "weight f = of_int ww"
    and r: "30 \<le> hh" "hh \<le> 200" "5 \<le> ww" "ww \<le> 150"
    by blast
  from assms have rr: "30 \<le> height f" "height f \<le> 200" "5 \<le> weight f" "weight f \<le> 150"
    by (simp_all add: delivered_def)
  from bmi_of_in_range [OF rr] obtain q where
    raw: "raw_bmi (weight f) (height f) = Inr (Fin q)"
    and bmi: "bmi_of (weight f) (height f)
                = Inr (Fin (fl64 (of_int (round_half_even (q * 100)) / 100)))"
    and near: "\<bar>of_int (round_half_even (q * 100)) / 100 - q\<bar> \<le> 1 / 200"
    and exact: "\<bar>q - exact_bmi f\<bar> \<le> 1 / 100000000000"
      "\<bar>fl64 (of_int (round_half_even (q * 100)) / 100) - exact_bmi f\<bar>
         \<le> 1 / 200 + 1 / 100000000000"
    unfolding exact_bmi_def by blast
  have off: "round_half_even (q * 100) = round_half_even (exact_bmi f * 100)"
    if "frac (exact_bmi f * 100) \<noteq> 1 / 2"
  proof -
    from raw have "raw_bmi (of_int ww) (of_int hh) = Inr (Fin q)" by (simp add: hw)
    moreover from that have "frac (of_int ww / (of_int hh / 100)\<^sup>2 * 100 :: rat) \<noteq> 1 / 2"
      by (simp add: exact_bmi_def hw)
    ultimately show ?thesis
      using raw_bmi_int_off_tie [OF r] by (simp add: exact_bmi_def hw)
  qed
  have "bmi_of (fl64 (3072 / 100)) 120 = Inr (Fin (fl64 (2133 / 100)))"
    unfolding fl64_3072 fl64_2133 by (rule bmi_of_3072)
  moreover have "map_of (input_data f (Fin (fl64 (of_int (round_half_even (q * 100)) / 100)))) ''BMI''
      = Some (Fin (fl64 (of_int (round_half_even (q * 100)) / 100)))"
    by (rule input_data_cells)
  ultimately show ?thesis
    using raw bmi near exact off raw_bmi_Fin [OF raw] by blast
qed

theorem bmi_is_rounded_quotient_witness:
  "delivered scenario_form
   \<and> frac (exact_bmi scenario_form * 100) \<noteq> 1 / 2
   \<and> round_half_even (exact_bmi scenario_form * 100) = 2431
   \<and> bmi_of (weight scenario_form) (height scenario_form) = Inr (Fin (fl64 (2431 / 100)))"
proof -
  have e: "exact_bmi scenario_form * 100 = 21875 / 9"
    by (simp add: exact_bmi_def scenario_form_def power2_eq_square)
  have tie: "frac (exact_bmi scenario_form * 100) \<noteq> 1 / 2"
    unfolding e by (simp add: frac_def floor_rat_numeral)
  have k: "round_half_even (exact_bmi scenario_form * 100) = 2431"
    unfolding e by (simp add: round_half_even_def Let_def floor_rat_numeral)
  from bmi_is_rounded_quotient [OF delivered_samples(1)] obtain q where
    bmi: "bmi_of (weight scenario_form) (height scenario_form)
            = Inr (Fin (fl64 (of_int (round_half_even (q * 100)) / 100)))"
    and off: "frac (exact_bmi scenario_form * 100) \<noteq> 1 / 2
            \<longrightarrow> round_half_even (q * 100) = round_half_even (exact_bmi scenario_form * 100)"
    by blast
  from off tie k have "round_half_even (q * 100) = 2431" by simp
  with bmi have "bmi_of (weight scenario_form) (height scenario_form)
      = Inr (Fin (fl64 (2431 / 100)))"
    by simp
  with delivered_samples(1) tie k show ?thesis by blast
qed

section \<open>The thresholds see the rounded BMI\<close>

lemma raw_bmi_closest:
  "raw_bmi (weight closest_form) (height closest_form)
     = Inr (Fin (3097064392385819 / 140737488355328))"
  by (simp add: closest_form_def scenario_form_def bmi_eval)

lemma bmi_of_closest:
  "bmi_of (weight closest_form) (height closest_form)
     = Inr (Fin (6195264237401539 / 281474976710656))"
  using bmi_of_2201 by (simp add: closest_form_def)

text \<open>
  \<^bold>\<open>C10\<close>, as stated, fails in its second half: no form that is delivered has a quotient
  above 22 that is rounded to 22.0.
\<close>

theorem no_delivered_form_hides_an_excess_counterexample:
  "\<not> (\<exists>f q. delivered f \<and> raw_bmi (weight f) (height f) = Inr q
          \<and> float_gt q 22 \<and> py_round2 q = Fin 22)"
proof
  assume "\<exists>f q. delivered f \<and> raw_bmi (weight f) (height f) = Inr q
          \<and> float_gt q 22 \<and> py_round2 q = Fin 22"
  then obtain f q where d: "delivered f" and raw: "raw_bmi (weight f) (height f) = Inr q"
    and above: "float_gt q 22" and round: "py_round2 q = Fin 22"
    by blast
  from delivered_threshold [OF d raw] above have "float_gt (py_round2 q) 22" by simp
  then show False unfolding round by simp
qed

text \<open>
  \<^bold>\<open>C10\<close>, as amended. The BMI that is shown, that is sent to the classifier, that
  decides the BMI warning and that decides the BMI probe is the quotient of line 124
  after rounding to two places. For a form that is delivered this decides as the
  quotient itself would: the rounded BMI is above 22 exactly when the quotient is. (The
  nearest quotient above 22 is 22.00597, at 143 cm and 45 kg, and its BMI is 22.01.)
\<close>

theorem thresholds_use_rounded_bmi:
  assumes "raw_bmi (weight f) (height f) = Inr q"
    and "on_submit m f = (Inr rep, w)"
  shows "shown_bmi rep = py_round2 q
       \<and> map_of (hd (calls w)) ''BMI'' = Some (py_round2 q)
       \<and> (bmi_warning \<in> set (suggestions rep) \<longleftrightarrow> float_gt (py_round2 q) 22)
       \<and> (''BMI'' \<in> fst ` set (changes w) \<longleftrightarrow> at_risk rep \<and> float_gt (py_round2 q) 22)
       \<and> (delivered f \<longrightarrow> (float_gt (py_round2 q) 22 \<longleftrightarrow> float_gt q 22))"
proof -
  from assms(1) have bmi: "bmi_of (weight f) (height f) = Inr (py_round2 q)"
    by (simp add: bmi_of_def)
  from assms(2) have rep: "rep = fst (assess m f (py_round2 q))"
    and w: "w = snd (assess m f (py_round2 q))"
    by (simp_all add: on_submit_Inr [OF bmi])
  have shown: "shown_bmi rep = py_round2 q"
    by (simp add: rep assess_eq)
  have cell: "map_of (hd (calls w)) ''BMI'' = Some (py_round2 q)"
    by (simp add: w assess_eq input_data_cells)
  have warn: "bmi_warning \<in> set (suggestions rep) \<longleftrightarrow> float_gt (py_round2 q) 22"
    by (simp add: rep assess_eq health_suggestions_def bmi_warning_def)
  have "fst ` set (changes w) = (if at_risk rep then set (eligible f (py_round2 q)) else {})"
    by (simp add: rep w assess_eq image_comp comp_def)
  then have key: "''BMI'' \<in> fst ` set (changes w) \<longleftrightarrow> at_risk rep \<and> float_gt (py_round2 q) 22"
    by (simp add: eligible_iff)
  have same: "float_gt (py_round2 q) 22 \<longleftrightarrow> float_gt q 22" if "delivered f"
    using that assms(1) by (rule delivered_threshold)
  from shown cell warn key same show ?thesis by blast
qed

theorem thresholds_use_rounded_bmi_witness:
  "raw_bmi (weight closest_form) (height closest_form)
     = Inr (Fin (3097064392385819 / 140737488355328))
   \<and> on_submit step_model closest_form
       = (Inr (fst (assess step_model closest_form (Fin (6195264237401539 / 281474976710656)))),
          snd (assess step_model closest_form (Fin (6195264237401539 / 281474976710656))))
   \<and> delivered closest_form
   \<and> float_gt (Fin (3097064392385819 / 140737488355328)) 22
   \<and> float_gt (py_round2 (Fin (3097064392385819 / 140737488355328))) 22
   \<and> bmi_warning
        \<in> set (suggestions (fst (assess step_model closest_form
                                     (Fin (6195264237401539 / 281474976710656)))))
   \<and> ''BMI''
        \<in> fst ` set (changes (snd (assess step_model closest_form
                                      (Fin (6195264237401539 / 281474976710656)))))"
proof -
  let ?q = "Fin (3097064392385819 / 140737488355328)"
  let ?rep = "fst (assess step_model closest_form (Fin (6195264237401539 / 281474976710656)))"
  let ?w = "snd (assess step_model closest_form (Fin (6195264237401539 / 281474976710656)))"
  have h1: "raw_bmi (weight closest_form) (height closest_form) = Inr ?q"
    by (rule raw_bmi_closest)
  have h2: "on_submit step_model closest_form = (Inr ?rep, ?w)"
    using bmi_of_closest by (rule on_submit_Inr)
  have d: "delivered closest_form" by (rule delivered_samples(4))
  have above: "float_gt ?q 22" by simp
  have risk: "at_risk ?rep"
    by (simp add: assess_eq step_model_def)
  note inst = thresholds_use_rounded_bmi [OF h1 h2]
  from inst d above have rounded: "float_gt (py_round2 ?q) 22" by blast
  with inst risk have "bmi_warning \<in> set (suggestions ?rep)"
    and "''BMI'' \<in> fst ` set (changes ?w)"
    by blast+
  with h1 h2 d above rounded show ?thesis by blast
qed

text \<open>
  Away from the form the two can differ: the float \<^verbatim>\<open>31.68576\<close> as a weight, at 120 cm,
  has a quotient of 22.004, above 22, and a BMI of 22.0.
\<close>

lemma raw_bmi_off_form:
  "raw_bmi (8918748558059435 / 281474976710656) 120
     = Inr (Fin (6193575387541275 / 281474976710656))"
  by (simp add: bmi_eval)

lemma rounding_hides_an_excess_off_form:
  "raw_bmi (fl64 (3168576 / 100000)) 120 = Inr (Fin (6193575387541275 / 281474976710656))
   \<and> float_gt (Fin (6193575387541275 / 281474976710656)) 22
   \<and> py_round2 (Fin (6193575387541275 / 281474976710656)) = Fin 22"
proof -
  have "py_round2 (Fin (6193575387541275 / 281474976710656)) = Fin 22"
    by (simp add: float_eval)
  then show ?thesis
    unfolding fl64_borderline_weight using raw_bmi_off_form by simp
qed

end
